theory Spec2Isabelle
  imports Complex_Main
begin

section \<open>Python values used by the pipeline\<close>

text \<open>
  A Python \<open>str\<close> is a sequence of Unicode code points and \<open>len\<close> counts code points,
  so a string is a list of code points here. Dictionary keys of the metadata maps are the
  ASCII identifiers the source writes as literals; they are HOL strings.
\<close>

type_synonym pystr = "nat list"

datatype pyval = PInt int | PStr pystr | PFloat real | PNone

type_synonym pydict = "string \<rightharpoonup> pyval"

text \<open>The code points for which \<open>str.isspace\<close> holds: what \<open>str.strip()\<close> removes.\<close>

definition is_space :: "nat \<Rightarrow> bool" where
  "is_space c \<longleftrightarrow>
     (9 \<le> c \<and> c \<le> 13) \<or> (28 \<le> c \<and> c \<le> 32) \<or> c = 133 \<or> c = 160 \<or> c = 5760 \<or>
     (8192 \<le> c \<and> c \<le> 8202) \<or> c = 8232 \<or> c = 8233 \<or> c = 8239 \<or> c = 8287 \<or> c = 12288"

definition strip :: "pystr \<Rightarrow> pystr" where
  "strip s = rev (dropWhile is_space (rev (dropWhile is_space s)))"

text \<open>\<open>xs[:k]\<close> for a Python integer \<open>k\<close>: a negative bound counts from the end.\<close>

definition slice_to :: "'a list \<Rightarrow> int \<Rightarrow> 'a list" where
  "slice_to xs k = (if 0 \<le> k then take (nat k) xs else take (length xs - nat (- k)) xs)"

text \<open>\<open>f"{n:05d}"\<close> for a non-negative \<open>n\<close>: the decimal digits, zero-padded to width 5.\<close>

fun dec_digits :: "nat \<Rightarrow> pystr" where
  "dec_digits n = (if n < 10 then [48 + n] else dec_digits (n div 10) @ [48 + n mod 10])"

declare dec_digits.simps [simp del]

definition fmt05d :: "nat \<Rightarrow> pystr" where
  "fmt05d n = replicate (5 - length (dec_digits n)) 48 @ dec_digits n"

section \<open>Chunker (chunking.py)\<close>

record raw_document =
  doc_id :: pystr
  doc_text :: pystr
  source_path :: pystr
  metadata :: pydict

record document_chunk =
  chunk_doc_id :: pystr
  chunk_id :: pystr
  chunk_text :: pystr
  start_index :: int
  end_index :: int
  chunk_metadata :: pydict

text \<open>The character class of \<open>SENTENCE_SEP_PATTERN\<close>: the five sentence terminators.\<close>

definition is_terminator :: "nat \<Rightarrow> bool" where
  "is_terminator c \<longleftrightarrow> c = 12290 \<or> c = 65281 \<or> c = 65311 \<or> c = 63 \<or> c = 33"

text \<open>
  \<open>SENTENCE_SEP_PATTERN.split(text)\<close>: the pattern is a zero-width look-behind, so the
  text is cut after every terminator; a text that ends in a terminator yields a last,
  empty part.
\<close>

fun sep_split :: "pystr \<Rightarrow> pystr list" where
  "sep_split [] = [[]]"
| "sep_split (c # cs) =
     (if is_terminator c then [c] # sep_split cs
      else (case sep_split cs of [] \<Rightarrow> [[c]] | p # ps \<Rightarrow> (c # p) # ps))"

text \<open>\<open>SENTENCE_SEP_PATTERN.search(part)\<close> finds a position preceded by a terminator.\<close>

definition sep_search :: "pystr \<Rightarrow> bool" where
  "sep_search part = list_ex is_terminator part"

text \<open>The loop of \<open>_split_sentences\<close> over the parts, on the pair (sentences, buffer).\<close>

fun split_loop :: "pystr list \<Rightarrow> pystr list \<Rightarrow> pystr \<Rightarrow> pystr list \<times> pystr" where
  "split_loop [] sentences buffer = (sentences, buffer)"
| "split_loop (part # parts) sentences buffer =
     (if strip part = [] then split_loop parts sentences buffer
      else if sep_search part
        then split_loop parts (sentences @ [strip (buffer @ part)]) []
        else split_loop parts sentences (buffer @ part))"

definition split_sentences :: "pystr \<Rightarrow> pystr list" where
  "split_sentences txt =
     (case split_loop (sep_split txt) [] [] of (sentences, buffer) \<Rightarrow>
        (let sentences' = (if strip buffer \<noteq> [] then sentences @ [strip buffer] else sentences)
         in if sentences' = [] then [txt] else sentences'))"

text \<open>The local variables of \<open>chunk_document\<close> that its loop updates.\<close>

record chunker =
  chunks :: "document_chunk list"
  text_cursor :: int
  chunk_index :: nat
  current_chunk :: "pystr list"
  current_length :: int

definition total_length :: "pystr list \<Rightarrow> int" where
  "total_length ss = sum_list (map (\<lambda>s. int (length s)) ss)"

text \<open>The chunk built from the current window (the same code closes a window and flushes the last).\<close>

definition make_chunk :: "raw_document \<Rightarrow> chunker \<Rightarrow> document_chunk" where
  "make_chunk document st =
     (let chunk_txt = strip (concat (current_chunk st));
          start = max 0 (text_cursor st - current_length st);
          end = start + int (length chunk_txt)
      in \<lparr>chunk_doc_id = doc_id document,
          chunk_id = doc_id document @ [95] @ fmt05d (chunk_index st),
          chunk_text = chunk_txt,
          start_index = start,
          end_index = end,
          chunk_metadata = (metadata document)(''chunk_index'' \<mapsto> PInt (int (chunk_index st)))\<rparr>)"

text \<open>\<open>while current_chunk and current_length > overlap: ... pop(0)\<close>.\<close>

fun shrink :: "pystr list \<Rightarrow> int \<Rightarrow> int \<Rightarrow> pystr list \<times> int" where
  "shrink [] len overlap = ([], len)"
| "shrink (removed # rest) len overlap =
     (if len > overlap then shrink rest (len - int (length removed)) overlap
      else (removed # rest, len))"

definition close_window :: "raw_document \<Rightarrow> int \<Rightarrow> chunker \<Rightarrow> chunker" where
  "close_window document overlap st =
     (let kept = fst (shrink (current_chunk st) (current_length st) overlap)
      in st\<lparr>chunks := chunks st @ [make_chunk document st],
            chunk_index := chunk_index st + 1,
            current_chunk := kept,
            current_length := total_length kept\<rparr>)"

definition chunk_step :: "raw_document \<Rightarrow> int \<Rightarrow> int \<Rightarrow> chunker \<Rightarrow> pystr \<Rightarrow> chunker" where
  "chunk_step document chunk_size overlap st sentence =
     (let sentence_length = int (length sentence);
          st' = (if current_length st + sentence_length > chunk_size \<and> current_chunk st \<noteq> []
                 then close_window document overlap st else st)
      in st'\<lparr>current_chunk := current_chunk st' @ [sentence],
             current_length := current_length st' + sentence_length,
             text_cursor := text_cursor st' + sentence_length\<rparr>)"

definition chunker_init :: chunker where
  "chunker_init = \<lparr>chunks = [], text_cursor = 0, chunk_index = 0, current_chunk = [], current_length = 0\<rparr>"

definition chunk_document :: "raw_document \<Rightarrow> int \<Rightarrow> int \<Rightarrow> document_chunk list" where
  "chunk_document document chunk_size overlap =
     (let sentences = split_sentences (doc_text document)
      in if sentences = [] then []
         else (let st = foldl (chunk_step document chunk_size overlap) chunker_init sentences
               in if current_chunk st \<noteq> [] then chunks st @ [make_chunk document st]
                  else chunks st))"

definition chunk_corpus :: "raw_document list \<Rightarrow> int \<Rightarrow> int \<Rightarrow> document_chunk list" where
  "chunk_corpus documents chunk_size overlap =
     concat (map (\<lambda>document. chunk_document document chunk_size overlap) documents)"

section \<open>EmbeddingService (embedding_service.py)\<close>

type_synonym vec = "real list"

text \<open>
  A two-dimensional numpy array as its list of rows. A cell is a number, or Python's
  \<open>None\<close> in the object array that \<open>np.vstack\<close> builds from a row that was never filled.
\<close>

type_synonym array2d = "real option list list"

text \<open>
  Exceptions by where they come from: \<open>ModelError\<close> is whatever the external model
  call raises, \<open>RuntimeError\<close> is raised by the repository's own checks (model or
  index not available, missing credential), \<open>IndexError\<close>, \<open>ValueError\<close> and
  \<open>TypeError\<close> by list indexing, numpy and \<open>int(...)\<close>, \<open>UnicodeEncodeError\<close> by
  \<open>str.encode\<close>, and \<open>ValidationError\<close> is the \<open>ValueError\<close> of an empty query.
\<close>

datatype py_error =
  ModelError | RuntimeError | IndexError | ValueError | ValidationError | TypeError
| UnicodeEncodeError

text \<open>
  What the service does not own: the SHA-256 digest, whether the model can be loaded, the
  model's \<open>encode\<close> (\<open>None\<close> when it raises), the rounding of a number to \<open>float32\<close>,
  whether the snapshot file can be written, and numpy's outcome of
  \<open>np.array([]).reshape(0, -1)\<close>.
\<close>

record embedding_env =
  sha256_hexdigest :: "pystr \<Rightarrow> pystr"
  model_available :: bool
  encode :: "pystr list \<Rightarrow> vec list option"
  float32 :: "real \<Rightarrow> real"
  disk_writable :: bool
  reshape_empty :: "py_error + array2d"

text \<open>
  The fields of the service that change, the snapshot file, and the log of the batches
  handed to the model (one entry per invocation of \<open>encode\<close>).
\<close>

record embedding_service =
  cache :: "pystr \<rightharpoonup> vec"
  cache_dirty :: bool
  model_loaded :: bool
  cache_file :: "(pystr \<rightharpoonup> vec) option"
  encode_calls :: "pystr list list"

text \<open>
  \<open>_hash_text\<close>: \<open>text.encode("utf-8")\<close> raises on a lone surrogate (code points
  \<open>0xD800\<close> to \<open>0xDFFF\<close>), which a Python string may hold. (Code points of a Python
  string are below \<open>0x110000\<close>.)
\<close>

definition utf8_encodable :: "pystr \<Rightarrow> bool" where
  "utf8_encodable t = list_all (\<lambda>c. \<not> (55296 \<le> c \<and> c \<le> 57343)) t"

definition hash_text :: "embedding_env \<Rightarrow> pystr \<Rightarrow> py_error + pystr" where
  "hash_text env t =
     (if utf8_encodable t then Inr (sha256_hexdigest env t) else Inl UnicodeEncodeError)"

definition load_model :: "embedding_env \<Rightarrow> embedding_service \<Rightarrow> py_error + embedding_service" where
  "load_model env s =
     (if model_loaded s then Inr s
      else if model_available env then Inr (s\<lparr>model_loaded := True\<rparr>)
      else Inl RuntimeError)"

text \<open>
  \<open>np.asarray(embeddings, dtype=np.float32)\<close>: every number rounded to \<open>float32\<close>;
  rows of different length raise.
\<close>

definition asarray_float32 :: "embedding_env \<Rightarrow> vec list \<Rightarrow> py_error + vec list" where
  "asarray_float32 env embeddings =
     (case embeddings of
        [] \<Rightarrow> Inr []
      | v # _ \<Rightarrow>
          (if list_all (\<lambda>w. length w = length v) embeddings
           then Inr (map (map (float32 env)) embeddings) else Inl ValueError))"

definition embed_batch ::
  "embedding_env \<Rightarrow> embedding_service \<Rightarrow> pystr list \<Rightarrow> (py_error + vec list) \<times> embedding_service" where
  "embed_batch env s texts =
     (case load_model env s of
        Inl e \<Rightarrow> (Inl e, s)
      | Inr s1 \<Rightarrow>
          (let s2 = s1\<lparr>encode_calls := encode_calls s1 @ [texts]\<rparr>
           in case encode env texts of
                None \<Rightarrow> (Inl ModelError, s2)
              | Some embeddings \<Rightarrow> (asarray_float32 env embeddings, s2)))"

text \<open>
  The read loop: (embeddings, missing_texts, missing_indices) for the texts from \<open>idx\<close>
  on, or the error of the first text that cannot be hashed.
\<close>

fun read_cache ::
  "embedding_env \<Rightarrow> (pystr \<rightharpoonup> vec) \<Rightarrow> nat \<Rightarrow> pystr list \<Rightarrow>
   py_error + vec option list \<times> pystr list \<times> nat list" where
  "read_cache env c idx [] = Inr ([], [], [])"
| "read_cache env c idx (t # ts) =
     (case hash_text env t of
        Inl e \<Rightarrow> Inl e
      | Inr key \<Rightarrow>
          (case read_cache env c (Suc idx) ts of
             Inl e \<Rightarrow> Inl e
           | Inr (embeddings, missing_texts, missing_indices) \<Rightarrow>
               (case c key of
                  Some cached \<Rightarrow> Inr (Some cached # embeddings, missing_texts, missing_indices)
                | None \<Rightarrow> Inr (None # embeddings, t # missing_texts, idx # missing_indices))))"

text \<open>
  The write loop over \<open>enumerate(new_embeds)\<close>. \<open>missing_indices[offset]\<close> raises
  IndexError when the model returned more rows than it was given; the entries written
  before stay in the cache.
\<close>

fun store_new ::
  "embedding_env \<Rightarrow> pystr list \<Rightarrow> nat list \<Rightarrow> nat \<Rightarrow> vec list \<Rightarrow>
   vec option list \<times> embedding_service \<Rightarrow> py_error option \<times> vec option list \<times> embedding_service" where
  "store_new env texts_list missing_indices offset [] (embeddings, s) = (None, embeddings, s)"
| "store_new env texts_list missing_indices offset (emb # new_embeds) (embeddings, s) =
     (if offset < length missing_indices then
        (let target_idx = missing_indices ! offset
         in case hash_text env (texts_list ! target_idx) of
              Inl e \<Rightarrow> (Some e, embeddings[target_idx := Some emb], s)
            | Inr cache_key \<Rightarrow>
                store_new env texts_list missing_indices (Suc offset) new_embeds
                  (embeddings[target_idx := Some emb],
                   s\<lparr>cache := (cache s)(cache_key \<mapsto> emb), cache_dirty := True\<rparr>))
      else (Some IndexError, embeddings, s))"

definition save_cache :: "embedding_env \<Rightarrow> embedding_service \<Rightarrow> embedding_service" where
  "save_cache env s =
     (if \<not> cache_dirty s then s
      else if disk_writable env then s\<lparr>cache_file := Some (cache s), cache_dirty := False\<rparr>
      else s)"

text \<open>
  \<open>np.vstack\<close> makes every element two-dimensional and concatenates: a vector is a row
  of its numbers, \<open>None\<close> is the one-cell row \<open>[None]\<close>. It raises on an empty list and
  on rows of different width; so a row that is still \<open>None\<close> raises next to vectors of a
  dimension other than 1, and is returned as a row next to vectors of dimension 1 or when
  every row is \<open>None\<close>.
\<close>

definition as_row :: "vec option \<Rightarrow> real option list" where
  "as_row r = (case r of None \<Rightarrow> [None] | Some v \<Rightarrow> map Some v)"

definition vstack :: "vec option list \<Rightarrow> py_error + array2d" where
  "vstack rows =
     (case rows of
        [] \<Rightarrow> Inl ValueError
      | r # _ \<Rightarrow>
          (if list_all (\<lambda>x. length (as_row x) = length (as_row r)) rows
           then Inr (map as_row rows) else Inl ValueError))"

definition embed_texts ::
  "embedding_env \<Rightarrow> embedding_service \<Rightarrow> pystr list \<Rightarrow> (py_error + array2d) \<times> embedding_service" where
  "embed_texts env s texts_list =
     (if texts_list = [] then (reshape_empty env, s)
      else (case read_cache env (cache s) 0 texts_list of
          Inl e \<Rightarrow> (Inl e, s)
        | Inr (embeddings, missing_texts, missing_indices) \<Rightarrow>
          (if missing_texts \<noteq> [] then
             (case embed_batch env s missing_texts of
                (Inl e, s1) \<Rightarrow> (Inl e, s1)
              | (Inr new_embeds, s1) \<Rightarrow>
                  (case store_new env texts_list missing_indices 0 new_embeds (embeddings, s1) of
                     (Some e, _, s2) \<Rightarrow> (Inl e, s2)
                   | (None, embeddings', s2) \<Rightarrow> (vstack embeddings', save_cache env s2)))
           else (vstack embeddings, s))))"

text \<open>
  Two properties an embedding model may have: it returns one vector per text of the
  batch, and within one batch equal texts get equal vectors.
\<close>

definition encode_one_per_text :: "embedding_env \<Rightarrow> bool" where
  "encode_one_per_text env \<longleftrightarrow>
     (\<forall>batch vs. encode env batch = Some vs \<longrightarrow> length vs = length batch)"

definition encode_consistent :: "embedding_env \<Rightarrow> bool" where
  "encode_consistent env \<longleftrightarrow>
     (\<forall>batch vs i j. encode env batch = Some vs \<longrightarrow> i < length batch \<longrightarrow> j < length batch \<longrightarrow>
        i < length vs \<longrightarrow> j < length vs \<longrightarrow> batch ! i = batch ! j \<longrightarrow> vs ! i = vs ! j)"

section \<open>Reranker (reranker.py)\<close>

record retrieval_result =
  chunk :: document_chunk
  score :: real

text \<open>
  One entry of what the external cross-encoder returns: a dictionary read with
  \<open>result.get\<close>, so every key may be absent.
\<close>

record rerank_hit =
  hit_score :: "real option"
  result_index :: "int option"
  content :: "pystr option"
  hit_text :: "pystr option"

text \<open>The variants built by \<open>build_reranker\<close>; the cross-encoder carries its model
  (\<open>None\<close> when the model call raises).\<close>

datatype reranker =
  NoOpReranker
| ColBERTReranker "pystr \<Rightarrow> pystr list \<Rightarrow> int \<Rightarrow> rerank_hit list option"

text \<open>\<open>result.get("content") or result.get("text")\<close>: an empty string is falsy.\<close>

definition content_or_text :: "rerank_hit \<Rightarrow> pystr option" where
  "content_or_text result =
     (case content result of
        None \<Rightarrow> hit_text result
      | Some c \<Rightarrow> if c \<noteq> [] then Some c else hit_text result)"

definition truthy :: "pystr option \<Rightarrow> bool" where
  "truthy t = (case t of None \<Rightarrow> False | Some x \<Rightarrow> x \<noteq> [])"

text \<open>\<open>passages.index(text)\<close>: the first position, \<open>None\<close> for the ValueError.\<close>

fun list_index :: "'a list \<Rightarrow> 'a \<Rightarrow> nat option" where
  "list_index [] x = None"
| "list_index (y # ys) x = (if y = x then Some 0 else map_option Suc (list_index ys x))"

definition set_metadata :: "retrieval_result \<Rightarrow> string \<Rightarrow> pyval \<Rightarrow> retrieval_result" where
  "set_metadata item key v =
     item\<lparr>chunk := (chunk item)\<lparr>chunk_metadata := (chunk_metadata (chunk item))(key \<mapsto> v)\<rparr>\<rparr>"

text \<open>
  The candidates are objects that the reranker mutates in place and returns by reference.
  The store is the candidate sequence itself, an object is named by its position in it, and
  a reranker returns positions together with the store as it left it.
\<close>

record rank_state =
  ranked :: "nat list"
  seen_texts :: "pystr set"
  store :: "retrieval_result list"

text \<open>The index a result refers to: \<open>result_index\<close>, else the position of its text.\<close>

definition hit_index :: "pystr list \<Rightarrow> rerank_hit \<Rightarrow> int option" where
  "hit_index passages result =
     (case result_index result of
        Some i \<Rightarrow> Some i
      | None \<Rightarrow>
          (case content_or_text result of
             None \<Rightarrow> None
           | Some t \<Rightarrow> if t = [] then None else map_option int (list_index passages t)))"

fun colbert_loop :: "pystr list \<Rightarrow> rerank_hit list \<Rightarrow> rank_state \<Rightarrow> rank_state" where
  "colbert_loop passages [] st = st"
| "colbert_loop passages (result # results) st =
     (let sc = (case hit_score result of None \<Rightarrow> 0 | Some x \<Rightarrow> x);
          txt = content_or_text result
      in case hit_index passages result of
           None \<Rightarrow> colbert_loop passages results st
         | Some i \<Rightarrow>
             if \<not> (0 \<le> i \<and> i < int (length (store st))) then colbert_loop passages results st
             else if truthy txt \<and> the txt \<in> seen_texts st then colbert_loop passages results st
             else colbert_loop passages results
                    (st\<lparr>seen_texts := (if truthy txt then insert (the txt) (seen_texts st)
                                         else seen_texts st),
                        store := (store st)[nat i := set_metadata (store st ! nat i) ''score'' (PFloat sc)],
                        ranked := ranked st @ [nat i]\<rparr>))"

text \<open>\<open>item not in ranked\<close> compares by identity first and then by \<open>==\<close>.\<close>

definition in_ranked :: "rank_state \<Rightarrow> nat \<Rightarrow> bool" where
  "in_ranked st i \<longleftrightarrow> (\<exists>j \<in> set (ranked st). j = i \<or> store st ! j = store st ! i)"

definition backfill :: "rank_state \<Rightarrow> int \<Rightarrow> nat list" where
  "backfill st k =
     (if int (length (ranked st)) < k then
        (let remaining = filter (\<lambda>i. \<not> in_ranked st i) [0..<length (store st)]
         in ranked st @ slice_to remaining (k - int (length (ranked st))))
      else ranked st)"

definition rerank ::
  "reranker \<Rightarrow> pystr \<Rightarrow> retrieval_result list \<Rightarrow> int \<Rightarrow> py_error + nat list \<times> retrieval_result list" where
  "rerank r query candidates k =
     (case r of
        NoOpReranker \<Rightarrow> Inr (slice_to [0..<length candidates] k, candidates)
      | ColBERTReranker model \<Rightarrow>
          (let passages = map (\<lambda>item. chunk_text (chunk item)) candidates
           in case model query passages k of
                None \<Rightarrow> Inl ModelError
              | Some results \<Rightarrow>
                  (let st = colbert_loop passages results
                              \<lparr>ranked = [], seen_texts = {}, store = candidates\<rparr>
                   in Inr (slice_to (backfill st k) k, store st))))"

text \<open>The objects a reranker returned, read from the store.\<close>

definition reranked_items :: "nat list \<times> retrieval_result list \<Rightarrow> retrieval_result list" where
  "reranked_items res = map (\<lambda>i. snd res ! i) (fst res)"

section \<open>Retriever, Generator, MetricsCollector and the pipeline (pipeline.py)\<close>

record settings =
  top_k :: int
  rerank_top_k :: int
  api_key :: "pystr option"

text \<open>A hit of the vector index: the stored passage with its side-channel metadata.\<close>

record indexed_doc =
  page_content :: pystr
  doc_metadata :: pydict

record citation =
  label :: nat
  cite_source :: "pyval option"
  cite_doc_id :: pystr
  cite_chunk_id :: pystr
  excerpt :: pystr

record context_payload =
  ctx_doc_id :: pystr
  ctx_chunk_id :: pystr
  ctx_text :: pystr
  ctx_metadata :: pydict

record answer_value =
  answer_query :: pystr
  answer_text :: pystr
  citations :: "citation list"
  contexts :: "context_payload list"

text \<open>
  A metrics row. The three latency columns are wall-clock differences and the timestamp is
  the current time; they are not part of the embedding.
\<close>

record metrics_row =
  row_query :: pystr
  retrieved_k :: int
  status :: string

text \<open>The calls that leave the pipeline, in the order they are made.\<close>

datatype event =
  SimilaritySearch pystr int
| Rerank pystr nat int
| ChatCompletion pystr "retrieval_result list"
| MetricsInsert metrics_row

text \<open>
  What the pipeline does not own: the index search (\<open>None\<close> when no index is built or the
  search raises), Python's \<open>int\<close> on a string, the chat-completion model (\<open>None\<close> when
  it raises), and whether the metrics store accepts the insert.
\<close>

record pipeline_env =
  pipeline_settings :: settings
  similarity_search_with_score :: "pystr \<Rightarrow> int \<Rightarrow> (indexed_doc \<times> real) list option"
  pipeline_reranker :: reranker
  int_of_str :: "pystr \<Rightarrow> int option"
  chat_completion :: "pystr \<Rightarrow> retrieval_result list \<Rightarrow> pystr option"
  metrics_db_ok :: bool

record pipeline =
  trace :: "event list"
  metrics_rows :: "metrics_row list"
  generator_built :: bool

text \<open>
  \<open>Retriever.retrieve\<close>. \<open>int(metadata.get("start_index", 0))\<close> takes 0 for a missing
  key, truncates a float towards zero, parses a string (\<open>int_of_str\<close>, \<open>None\<close> for its
  ValueError) and raises TypeError on \<open>None\<close>. The fields \<open>doc_id\<close> and \<open>chunk_id\<close> of
  a chunk are strings; the index stores strings under these keys (\<open>build_index\<close> writes
  them), and a missing key takes the default \<open>""\<close>.
\<close>

definition get_str :: "pydict \<Rightarrow> string \<Rightarrow> pystr" where
  "get_str md key = (case md key of Some (PStr v) \<Rightarrow> v | _ \<Rightarrow> [])"

definition get_int :: "pipeline_env \<Rightarrow> pydict \<Rightarrow> string \<Rightarrow> py_error + int" where
  "get_int env md key =
     (case md key of
        None \<Rightarrow> Inr 0
      | Some (PInt v) \<Rightarrow> Inr v
      | Some (PFloat x) \<Rightarrow> Inr (if 0 \<le> x then \<lfloor>x\<rfloor> else \<lceil>x\<rceil>)
      | Some (PStr t) \<Rightarrow> (case int_of_str env t of None \<Rightarrow> Inl ValueError | Some v \<Rightarrow> Inr v)
      | Some PNone \<Rightarrow> Inl TypeError)"

definition wrap_hit :: "pipeline_env \<Rightarrow> indexed_doc \<times> real \<Rightarrow> py_error + retrieval_result" where
  "wrap_hit env hit =
     (case hit of (doc, sc) \<Rightarrow>
        (let md = (doc_metadata doc)(''score'' \<mapsto> PFloat sc)
         in case get_int env md ''start_index'' of
              Inl e \<Rightarrow> Inl e
            | Inr start \<Rightarrow>
                (case get_int env md ''end_index'' of
                   Inl e \<Rightarrow> Inl e
                 | Inr end \<Rightarrow>
                     Inr \<lparr>chunk = \<lparr>chunk_doc_id = get_str md ''doc_id'',
                                   chunk_id = get_str md ''chunk_id'',
                                   chunk_text = page_content doc,
                                   start_index = start,
                                   end_index = end,
                                   chunk_metadata = md\<rparr>,
                          score = sc\<rparr>)))"

text \<open>The loop of \<open>retrieve\<close> over the hits: the first hit that raises ends it.\<close>

fun wrap_all :: "pipeline_env \<Rightarrow> (indexed_doc \<times> real) list \<Rightarrow> py_error + retrieval_result list" where
  "wrap_all env [] = Inr []"
| "wrap_all env (hit # hits) =
     (case wrap_hit env hit of
        Inl e \<Rightarrow> Inl e
      | Inr result \<Rightarrow>
          (case wrap_all env hits of Inl e \<Rightarrow> Inl e | Inr results \<Rightarrow> Inr (result # results)))"

definition retrieve ::
  "pipeline_env \<Rightarrow> pipeline \<Rightarrow> int \<Rightarrow> pystr \<Rightarrow> (py_error + retrieval_result list) \<times> pipeline" where
  "retrieve env p depth query =
     (let p1 = p\<lparr>trace := trace p @ [SimilaritySearch query depth]\<rparr>
      in case similarity_search_with_score env query depth of
           None \<Rightarrow> (Inl RuntimeError, p1)
         | Some documents_with_scores \<Rightarrow> (wrap_all env documents_with_scores, p1))"

text \<open>\<open>for idx, item in enumerate(retrieval_results, start=1)\<close>: every object, in order.\<close>

fun rank_all :: "string \<Rightarrow> nat \<Rightarrow> retrieval_result list \<Rightarrow> retrieval_result list" where
  "rank_all key idx [] = []"
| "rank_all key idx (item # items) =
     set_metadata item key (PInt (int idx)) # rank_all key (Suc idx) items"

text \<open>The same loop over the reranked objects, which are positions in the store.\<close>

fun rank_selected :: "string \<Rightarrow> nat \<Rightarrow> nat list \<Rightarrow> retrieval_result list \<Rightarrow> retrieval_result list" where
  "rank_selected key idx [] st = st"
| "rank_selected key idx (i # is) st =
     rank_selected key (Suc idx) is (st[i := set_metadata (st ! i) key (PInt (int idx))])"

text \<open>\<open>metadata.get("source_name") or metadata.get("source")\<close>.\<close>

definition py_truthy :: "pyval \<Rightarrow> bool" where
  "py_truthy v = (case v of PInt i \<Rightarrow> i \<noteq> 0 | PStr x \<Rightarrow> x \<noteq> [] | PFloat x \<Rightarrow> x \<noteq> 0 | PNone \<Rightarrow> False)"

definition source_of :: "pydict \<Rightarrow> pyval option" where
  "source_of md =
     (case md ''source_name'' of
        None \<Rightarrow> md ''source''
      | Some v \<Rightarrow> if py_truthy v then Some v else md ''source'')"

fun make_citations :: "nat \<Rightarrow> retrieval_result list \<Rightarrow> citation list" where
  "make_citations idx [] = []"
| "make_citations idx (result # results) =
     \<lparr>label = idx,
      cite_source = source_of (chunk_metadata (chunk result)),
      cite_doc_id = chunk_doc_id (chunk result),
      cite_chunk_id = chunk_id (chunk result),
      excerpt = take 200 (strip (chunk_text (chunk result)))\<rparr> # make_citations (Suc idx) results"

text \<open>
  The \<open>generator\<close> property builds the Generator on first use, which needs the credential;
  \<open>generate_answer\<close> then makes one chat-completion request.
\<close>

definition generate_answer ::
  "pipeline_env \<Rightarrow> pipeline \<Rightarrow> pystr \<Rightarrow> retrieval_result list \<Rightarrow>
   (py_error + pystr \<times> citation list) \<times> pipeline" where
  "generate_answer env p query ctxs =
     (if \<not> generator_built p \<and> \<not> truthy (api_key (pipeline_settings env)) then (Inl RuntimeError, p)
      else (let p1 = p\<lparr>generator_built := True, trace := trace p @ [ChatCompletion query ctxs]\<rparr>
            in case chat_completion env query ctxs of
                 None \<Rightarrow> (Inl ModelError, p1)
               | Some txt \<Rightarrow> (Inr (txt, make_citations 1 ctxs), p1)))"

text \<open>\<open>MetricsCollector.record\<close>: a failed insert is logged and swallowed.\<close>

definition record_metrics :: "pipeline_env \<Rightarrow> pipeline \<Rightarrow> metrics_row \<Rightarrow> pipeline" where
  "record_metrics env p row =
     (let p1 = p\<lparr>trace := trace p @ [MetricsInsert row]\<rparr>
      in if metrics_db_ok env then p1\<lparr>metrics_rows := metrics_rows p1 @ [row]\<rparr> else p1)"

text \<open>\<open>top_k or self.settings.top_k\<close>: \<open>None\<close> and \<open>0\<close> are falsy.\<close>

definition top_k_or_default :: "pipeline_env \<Rightarrow> int option \<Rightarrow> int" where
  "top_k_or_default env k =
     (case k of None \<Rightarrow> top_k (pipeline_settings env)
      | Some n \<Rightarrow> if n = 0 then top_k (pipeline_settings env) else n)"

definition answer ::
  "pipeline_env \<Rightarrow> pipeline \<Rightarrow> pystr \<Rightarrow> int option \<Rightarrow> (py_error + answer_value) \<times> pipeline" where
  "answer env p query k =
     (if strip query = [] then (Inl ValidationError, p)
      else
       (let retrieval_depth = max (rerank_top_k (pipeline_settings env)) (top_k_or_default env k)
        in case retrieve env p retrieval_depth query of
             (Inl e, p1) \<Rightarrow> (Inl e, p1)
           | (Inr retrieval_results, p1) \<Rightarrow>
               (let ranked_results = rank_all ''retrieval_rank'' 1 retrieval_results;
                    p2 = p1\<lparr>trace := trace p1 @
                           [Rerank query (length ranked_results) (top_k_or_default env k)]\<rparr>
                in case rerank (pipeline_reranker env) query ranked_results (top_k_or_default env k) of
                     Inl e \<Rightarrow> (Inl e, p2)
                   | Inr (selected, st) \<Rightarrow>
                       (let reranked_results =
                              reranked_items (selected, rank_selected ''rerank_rank'' 1 selected st)
                        in case generate_answer env p2 query reranked_results of
                             (Inl e, p3) \<Rightarrow> (Inl e, p3)
                           | (Inr (txt, cites), p3) \<Rightarrow>
                               (let context_payload =
                                      map (\<lambda>item. \<lparr>ctx_doc_id = chunk_doc_id (chunk item),
                                                   ctx_chunk_id = chunk_id (chunk item),
                                                   ctx_text = chunk_text (chunk item),
                                                   ctx_metadata = chunk_metadata (chunk item)\<rparr>)
                                          reranked_results;
                                    result = \<lparr>answer_query = query, answer_text = txt,
                                              citations = cites, contexts = context_payload\<rparr>
                                in (Inr result,
                                    record_metrics env p3
                                      \<lparr>row_query = query,
                                       retrieved_k = int (length reranked_results),
                                       status = ''success''\<rparr>))))))"

section \<open>Auxiliary notions for the properties\<close>


text \<open>
  The invariant of the write loop of \<open>embed_texts\<close>: every filled row is what the cache
  holds for its text, and every cache entry is the one the call started with or the model's
  vector for that key.
\<close>

definition agrees :: "embedding_env \<Rightarrow> pystr list \<Rightarrow> (pystr \<rightharpoonup> vec) \<Rightarrow> (pystr \<Rightarrow> vec) \<Rightarrow>
   vec option list \<Rightarrow> embedding_service \<Rightarrow> bool" where
  "agrees env ts c0 F E s \<longleftrightarrow>
     length E = length ts \<and>
     (\<forall>i < length ts. E ! i \<noteq> None \<longrightarrow> cache s (sha256_hexdigest env (ts ! i)) = E ! i) \<and>
     (\<forall>k. cache s k = c0 k \<or> cache s k = Some (F k))"

text \<open>The chunk id of the \<open>i\<close>-th chunk of a document, and the number a digit string denotes.\<close>

definition make_chunk_id :: "raw_document \<Rightarrow> nat \<Rightarrow> pystr" where
  "make_chunk_id document i = doc_id document @ [95] @ fmt05d i"

definition digits_value :: "pystr \<Rightarrow> nat" where
  "digits_value ds = foldl (\<lambda>acc c. 10 * acc + (c - 48)) 0 ds"

text \<open>
  The invariant of the loop of \<open>chunk_document\<close> after the sentences \<open>seen\<close>: the cursor
  is their total length, the window is a suffix of them with \<open>current_length\<close> its total
  length, and the chunks closed so far are numbered from 0, start in ascending order no
  later than the window, and end no later than the cursor.
\<close>

definition chunker_inv :: "raw_document \<Rightarrow> pystr list \<Rightarrow> chunker \<Rightarrow> bool" where
  "chunker_inv document seen st \<longleftrightarrow>
     text_cursor st = total_length seen \<and>
     (\<exists>dropped. seen = dropped @ current_chunk st) \<and>
     current_length st = total_length (current_chunk st) \<and>
     chunk_index st = length (chunks st) \<and>
     map chunk_id (chunks st) = map (make_chunk_id document) [0..<length (chunks st)] \<and>
     (\<forall>c \<in> set (chunks st). start_index c \<le> end_index c \<and> end_index c \<le> text_cursor st \<and>
        start_index c \<le> text_cursor st - current_length st) \<and>
     sorted (map start_index (chunks st))"




section \<open>Example inputs\<close>

text \<open>The two-sentence document of the end-to-end scenario, 5 + 6 code points.\<close>

definition two_sentences :: pystr where
  "two_sentences = [22825, 27668, 24456, 22909, 12290, 25105, 20204, 21435, 20844, 22253, 12290]"

definition example_settings :: settings where
  "example_settings = \<lparr>top_k = 5, rerank_top_k = 12, api_key = Some [107]\<rparr>"

definition example_search :: "pystr \<Rightarrow> int \<Rightarrow> (indexed_doc \<times> real) list option" where
  "example_search query depth =
     Some [(\<lparr>page_content = [97], doc_metadata = Map.empty\<rparr>, 1),
           (\<lparr>page_content = [98], doc_metadata = Map.empty\<rparr>, 2)]"

definition no_int :: "pystr \<Rightarrow> int option" where
  "no_int t = None"

definition example_chat :: "pystr \<Rightarrow> retrieval_result list \<Rightarrow> pystr option" where
  "example_chat query ctxs = Some [111, 107]"

definition example_env :: pipeline_env where
  "example_env = \<lparr>pipeline_settings = example_settings,
                  similarity_search_with_score = example_search,
                  pipeline_reranker = NoOpReranker,
                  int_of_str = no_int,
                  chat_completion = example_chat,
                  metrics_db_ok = True\<rparr>"

definition example_pipeline :: pipeline where
  "example_pipeline = \<lparr>trace = [], metrics_rows = [], generator_built = False\<rparr>"







definition wide_env :: pipeline_env where
  "wide_env = example_env\<lparr>pipeline_settings := \<lparr>top_k = 20, rerank_top_k = 12, api_key = Some [107]\<rparr>\<rparr>"

text \<open>
  A digest without collisions and a \<open>float32\<close> rounding that is exact on the numbers
  used; a model that maps every text to the one-dimensional vector of its length, one that
  numbers the rows of its answer, one that returns no row at all, and one whose every call
  raises; and a fresh service.
\<close>

definition identity_hash :: "pystr \<Rightarrow> pystr" where
  "identity_hash t = t"

definition exact :: "real \<Rightarrow> real" where
  "exact x = x"

definition unit_vec :: "pystr \<Rightarrow> vec" where
  "unit_vec t = [real (length t)]"

definition unit_encode :: "pystr list \<Rightarrow> vec list option" where
  "unit_encode batch = Some (map unit_vec batch)"

definition position_vec :: "nat \<Rightarrow> vec" where
  "position_vec i = [real i]"

definition position_encode :: "pystr list \<Rightarrow> vec list option" where
  "position_encode batch = Some (map position_vec [0..<length batch])"

definition silent_encode :: "pystr list \<Rightarrow> vec list option" where
  "silent_encode batch = Some []"

definition failing_encode :: "pystr list \<Rightarrow> vec list option" where
  "failing_encode batch = None"

definition env_with :: "(pystr list \<Rightarrow> vec list option) \<Rightarrow> embedding_env" where
  "env_with model = \<lparr>sha256_hexdigest = identity_hash, model_available = True, encode = model,
                      float32 = exact, disk_writable = True, reshape_empty = Inl ValueError\<rparr>"

definition unit_env :: embedding_env where
  "unit_env = env_with unit_encode"

definition position_env :: embedding_env where
  "position_env = env_with position_encode"

definition silent_env :: embedding_env where
  "silent_env = env_with silent_encode"

definition failing_env :: embedding_env where
  "failing_env = env_with failing_encode"

definition empty_service :: embedding_service where
  "empty_service = \<lparr>cache = Map.empty, cache_dirty = False, model_loaded = False,
                     cache_file = None, encode_calls = []\<rparr>"

text \<open>Two documents with distinct ids.\<close>

definition example_documents :: "raw_document list" where
  "example_documents =
     [\<lparr>doc_id = [100], doc_text = two_sentences, source_path = [], metadata = Map.empty\<rparr>,
      \<lparr>doc_id = [101], doc_text = two_sentences, source_path = [], metadata = Map.empty\<rparr>]"

section \<open>Chunker: the end-to-end scenario and the empty document\<close>

lemma split_two_sentences:
  "split_sentences two_sentences =
     [[22825, 27668, 24456, 22909, 12290], [25105, 20204, 21435, 20844, 22253, 12290]]"
  by (simp add: two_sentences_def split_sentences_def sep_search_def strip_def is_space_def
      is_terminator_def)

lemma fmt05d_0: "fmt05d 0 = [48, 48, 48, 48, 48]"
  by code_simp

lemma fmt05d_1: "fmt05d (Suc 0) = [48, 48, 48, 48, 49]"
  by code_simp

lemma split_sentences_empty: "split_sentences [] = [[]]"
  by (simp add: split_sentences_def strip_def)

text \<open>
  C1, as the code has it. The two sentences have 5 and 6 code points, 11 together, so with
  \<open>chunk_size = 10\<close> and \<open>overlap = 2\<close> the second sentence closes the first window: the
  document yields two chunks, one per sentence, with chunk ids \<open><docId>_00000\<close> and
  \<open><docId>_00001\<close> (95 is the underscore, 48 and 49 the digits 0 and 1). One chunk holding
  both sentences, with id \<open><docId>_00000\<close>, is what \<open>chunk_size = 11\<close> yields.
\<close>

theorem two_sentence_document_chunks:
  "chunk_document \<lparr>doc_id = d, doc_text = two_sentences, source_path = sp, metadata = md\<rparr> 10 2 =
     [\<lparr>chunk_doc_id = d, chunk_id = d @ [95, 48, 48, 48, 48, 48],
       chunk_text = [22825, 27668, 24456, 22909, 12290],
       start_index = 0, end_index = 5, chunk_metadata = md(''chunk_index'' \<mapsto> PInt 0)\<rparr>,
      \<lparr>chunk_doc_id = d, chunk_id = d @ [95, 48, 48, 48, 48, 49],
       chunk_text = [25105, 20204, 21435, 20844, 22253, 12290],
       start_index = 5, end_index = 11, chunk_metadata = md(''chunk_index'' \<mapsto> PInt 1)\<rparr>]
   \<and> chunk_document \<lparr>doc_id = d, doc_text = two_sentences, source_path = sp, metadata = md\<rparr> 11 2 =
     [\<lparr>chunk_doc_id = d, chunk_id = d @ [95, 48, 48, 48, 48, 48],
       chunk_text = two_sentences,
       start_index = 0, end_index = 11, chunk_metadata = md(''chunk_index'' \<mapsto> PInt 0)\<rparr>]"
  apply (simp add: chunk_document_def split_two_sentences chunk_step_def chunker_init_def
      close_window_def make_chunk_def total_length_def strip_def is_space_def fmt05d_0 fmt05d_1
      Let_def)
  apply (simp add: two_sentences_def)
  done

text \<open>
  C1 as the specification states it fails: at \<open>chunk_size = 10\<close>, \<open>overlap = 2\<close> the
  document with id \<open>d\<close> (code point 100) yields two chunks, not one.
\<close>

theorem two_sentence_document_not_one_chunk:
  "length (chunk_document
      \<lparr>doc_id = [100], doc_text = two_sentences, source_path = [], metadata = Map.empty\<rparr> 10 2) = 2"
  by (simp add: chunk_document_def split_two_sentences chunk_step_def chunker_init_def
      close_window_def make_chunk_def total_length_def strip_def is_space_def Let_def)

text \<open>
  C6, at the empty document. \<open>_split_sentences\<close> ends in \<open>sentences or [text]\<close>, so the
  empty text gives the one sentence \<open>""\<close> and the guard \<open>if not sentences: return []\<close> of
  \<open>chunk_document\<close> never fires: the empty document yields one chunk, with empty text
  and both offsets 0, for every chunk size and overlap.
\<close>

theorem empty_document_yields_one_chunk:
  "chunk_document (document\<lparr>doc_text := []\<rparr>) chunk_size overlap =
     [\<lparr>chunk_doc_id = doc_id document, chunk_id = doc_id document @ [95, 48, 48, 48, 48, 48],
       chunk_text = [], start_index = 0, end_index = 0,
       chunk_metadata = (metadata document)(''chunk_index'' \<mapsto> PInt 0)\<rparr>]"
  by (simp add: chunk_document_def split_sentences_empty chunk_step_def chunker_init_def
      make_chunk_def strip_def fmt05d_0 Let_def)

text \<open>
  A document whose text is a single sentence yields one chunk, whatever the chunk size:
  the sentence, stripped, is the text of that chunk and is not split.
\<close>

lemma single_sentence_kept_whole:
  assumes "split_sentences (doc_text document) = [sentence]"
  shows "chunk_document document chunk_size overlap =
     [\<lparr>chunk_doc_id = doc_id document, chunk_id = doc_id document @ [95, 48, 48, 48, 48, 48],
       chunk_text = strip sentence, start_index = 0,
       end_index = int (length (strip sentence)),
       chunk_metadata = (metadata document)(''chunk_index'' \<mapsto> PInt 0)\<rparr>]"
  using assms
  by (simp add: chunk_document_def chunk_step_def chunker_init_def make_chunk_def fmt05d_0 Let_def)

section \<open>Pipeline: validation and retrieval depth\<close>

text \<open>
  C7. An empty query is rejected with the validation error and the pipeline state is
  returned as it was: the trace of outgoing calls and the metrics rows are unchanged, so
  no retrieval, rerank, generation or metrics call was made.
\<close>

theorem empty_query_rejected:
  "answer env p [] k = (Inl ValidationError, p)"
  by (simp add: answer_def strip_def)

text \<open>
  C3, as the code has it. For a query that passes validation, the first outgoing call is
  the one index search and no other search follows. Its depth is
  \<open>max(rerank_top_k, top_k)\<close> when the caller gives a \<open>top_k\<close> other than 0, and
  \<open>max(rerank_top_k, settings.top_k)\<close> when \<open>top_k\<close> is \<open>None\<close> or 0 (the source
  writes \<open>top_k or self.settings.top_k\<close>); with \<open>top_k = 3\<close> and a configured rerank
  depth of 12 the depth is 12.
\<close>

theorem retrieval_depth_amplified:
  assumes "strip query \<noteq> []"
  shows "\<exists>depth rest.
           trace (snd (answer env p query k)) = trace p @ [SimilaritySearch query depth] @ rest
         \<and> (\<forall>q d. SimilaritySearch q d \<notin> set rest)
         \<and> (k = None \<or> k = Some 0 \<longrightarrow>
               depth = max (rerank_top_k (pipeline_settings env)) (top_k (pipeline_settings env)))
         \<and> (\<forall>n. k = Some n \<longrightarrow> n \<noteq> 0 \<longrightarrow> depth = max (rerank_top_k (pipeline_settings env)) n)
         \<and> (k = Some 3 \<longrightarrow> rerank_top_k (pipeline_settings env) = 12 \<longrightarrow> depth = 12)"
proof -
  let ?depth = "max (rerank_top_k (pipeline_settings env)) (top_k_or_default env k)"
  have "\<exists>rest. trace (snd (answer env p query k)) = trace p @ [SimilaritySearch query ?depth] @ rest
         \<and> (\<forall>q d. SimilaritySearch q d \<notin> set rest)"
    using assms
    by (auto simp: answer_def retrieve_def generate_answer_def record_metrics_def Let_def
        split: option.splits sum.splits prod.splits)
  then obtain rest where r: "trace (snd (answer env p query k)) = trace p @ [SimilaritySearch query ?depth] @ rest"
    "\<forall>q d. SimilaritySearch q d \<notin> set rest" by blast
  have "(k = None \<or> k = Some 0 \<longrightarrow>
               ?depth = max (rerank_top_k (pipeline_settings env)) (top_k (pipeline_settings env)))
         \<and> (\<forall>n. k = Some n \<longrightarrow> n \<noteq> 0 \<longrightarrow> ?depth = max (rerank_top_k (pipeline_settings env)) n)
         \<and> (k = Some 3 \<longrightarrow> rerank_top_k (pipeline_settings env) = 12 \<longrightarrow> ?depth = 12)"
    by (auto simp: top_k_or_default_def)
  with r show ?thesis by blast
qed

text \<open>
  C3 as the specification states it fails: with a configured top-K of 20 and rerank depth
  12, the call with \<open>top_k = 0\<close> searches at depth 20, not at \<open>max(12, 0) = 12\<close>.
\<close>

theorem retrieval_depth_amplified_counterexample:
  "strip [113] \<noteq> []
   \<and> take 1 (trace (snd (answer wide_env example_pipeline [113] (Some 0)))) = [SimilaritySearch [113] 20]
   \<and> max (rerank_top_k (pipeline_settings wide_env)) 0 = 12"
  by (simp add: answer_def retrieve_def generate_answer_def record_metrics_def rerank_def
      reranked_items_def slice_to_def wide_env_def
      example_env_def example_settings_def example_search_def example_chat_def
      example_pipeline_def top_k_or_default_def strip_def is_space_def truthy_def Let_def
      wrap_hit_def get_int_def get_str_def)

text \<open>The depth at \<open>top_k = 3\<close>, at \<open>top_k = 20\<close> and without a \<open>top_k\<close>, rerank depth 12.\<close>

theorem retrieval_depth_amplified_witness:
  "strip [113] \<noteq> []
   \<and> take 1 (trace (snd (answer example_env example_pipeline [113] (Some 3)))) = [SimilaritySearch [113] 12]
   \<and> take 1 (trace (snd (answer example_env example_pipeline [113] (Some 20)))) = [SimilaritySearch [113] 20]
   \<and> take 1 (trace (snd (answer example_env example_pipeline [113] None))) = [SimilaritySearch [113] 12]"
proof -
  have h: "strip [113] \<noteq> []" by (simp add: strip_def is_space_def)
  have s: "rerank_top_k (pipeline_settings example_env) = 12" "top_k (pipeline_settings example_env) = 5"
    "trace example_pipeline = []"
    by (simp_all add: example_env_def example_settings_def example_pipeline_def)
  from retrieval_depth_amplified [OF h, of example_env example_pipeline "Some 3"] s
  have a: "take 1 (trace (snd (answer example_env example_pipeline [113] (Some 3)))) = [SimilaritySearch [113] 12]"
    by auto
  from retrieval_depth_amplified [OF h, of example_env example_pipeline "Some 20"] s
  have b: "take 1 (trace (snd (answer example_env example_pipeline [113] (Some 20)))) = [SimilaritySearch [113] 20]"
    by auto
  from retrieval_depth_amplified [OF h, of example_env example_pipeline None] s
  have c: "take 1 (trace (snd (answer example_env example_pipeline [113] None))) = [SimilaritySearch [113] 12]"
    by auto
  from h a b c show ?thesis by simp
qed

section \<open>Reranker: the top-K contract\<close>

lemma slice_to_length: "0 \<le> k \<Longrightarrow> int (length (slice_to xs k)) \<le> k"
  by (simp add: slice_to_def)








lemma rerank_length:
  assumes "0 \<le> k" "rerank r query candidates k = Inr (selected, st)"
  shows "int (length selected) \<le> k"
  using assms slice_to_length[of k]
  by (auto simp: rerank_def Let_def split: reranker.splits option.splits)















section \<open>Pipeline: the recorded retrieved_k\<close>

text \<open>
  C10, as the code has it. A successful \<open>answer\<close> makes exactly four outgoing calls: the search at the
  amplified depth, the rerank, the chat completion on the reranked results, and the metrics
  insert. The \<open>retrieved_k\<close> of the inserted row is the number of reranked results handed
  to the generator (the number of contexts of the answer), at most the effective top-K
  when that is not negative, and the row is stored unless the metrics store refuses it.
\<close>

theorem recorded_retrieved_k:
  assumes "answer env p query k = (Inr a, p')"
  shows "\<exists>n ctxs row.
           trace p' = trace p @
             [SimilaritySearch query (max (rerank_top_k (pipeline_settings env)) (top_k_or_default env k)),
              Rerank query n (top_k_or_default env k),
              ChatCompletion query ctxs,
              MetricsInsert row]
         \<and> retrieved_k row = int (length ctxs)
         \<and> length (contexts a) = length ctxs
         \<and> metrics_rows p' = metrics_rows p @ (if metrics_db_ok env then [row] else [])
         \<and> (0 \<le> top_k_or_default env k \<longrightarrow> retrieved_k row \<le> top_k_or_default env k)"
proof -
  let ?keff = "top_k_or_default env k"
  let ?depth = "max (rerank_top_k (pipeline_settings env)) ?keff"
  from assms have q: "strip query \<noteq> []" by (auto simp: answer_def split: if_splits)
  obtain hits where s: "similarity_search_with_score env query ?depth = Some hits"
    using assms q by (auto simp: answer_def retrieve_def Let_def split: option.splits)
  obtain results where w: "wrap_all env hits = Inr results"
    using assms q s by (auto simp: answer_def retrieve_def Let_def split: sum.splits)
  let ?cands = "rank_all ''retrieval_rank'' 1 results"
  obtain selected st where r: "rerank (pipeline_reranker env) query ?cands ?keff = Inr (selected, st)"
    using assms q s w by (auto simp: answer_def retrieve_def Let_def split: sum.splits)
  let ?ctxs = "reranked_items (selected, rank_selected ''rerank_rank'' 1 selected st)"
  let ?row = "\<lparr>row_query = query, retrieved_k = int (length ?ctxs), status = ''success''\<rparr>"
  have len: "length ?ctxs = length selected" by (simp add: reranked_items_def)
  have "trace p' = trace p @ [SimilaritySearch query ?depth, Rerank query (length ?cands) ?keff,
              ChatCompletion query ?ctxs, MetricsInsert ?row]
      \<and> length (contexts a) = length ?ctxs
      \<and> metrics_rows p' = metrics_rows p @ (if metrics_db_ok env then [?row] else [])"
    using assms q s w r
    by (auto simp: answer_def retrieve_def generate_answer_def record_metrics_def Let_def
        split: option.splits if_splits)
  moreover have "0 \<le> ?keff \<longrightarrow> retrieved_k ?row \<le> ?keff"
    using rerank_length [OF _ r] len by simp
  ultimately show ?thesis by (intro exI[of _ "length ?cands"] exI[of _ ?ctxs] exI[of _ ?row]) simp
qed


text \<open>
  C10 as the specification states it fails in its bound: with \<open>top_k = -1\<close> the
  pass-through slice \<open>[:top_k]\<close> keeps one of the two retrieved candidates, and the row
  records \<open>retrieved_k = 1\<close>, which is more than the requested top-K.
\<close>

theorem recorded_retrieved_k_counterexample:
  "top_k_or_default example_env (Some (- 1)) = - 1
   \<and> metrics_rows (snd (answer example_env example_pipeline [113] (Some (- 1)))) =
       [\<lparr>row_query = [113], retrieved_k = 1, status = ''success''\<rparr>]
   \<and> \<not> (1::int) \<le> - 1"
  by (simp add: answer_def retrieve_def generate_answer_def record_metrics_def rerank_def
      reranked_items_def slice_to_def
      example_env_def example_settings_def example_search_def example_chat_def
      example_pipeline_def top_k_or_default_def strip_def is_space_def truthy_def Let_def
      wrap_hit_def get_int_def get_str_def)

text \<open>With \<open>top_k = 3\<close> and rerank depth 12 the search asks for 12 and the row records at most 3.\<close>

theorem recorded_retrieved_k_witness:
  "\<exists>a p'. answer example_env example_pipeline [113] (Some 3) = (Inr a, p')
     \<and> (\<exists>n ctxs row.
           trace p' = [SimilaritySearch [113] 12, Rerank [113] n 3, ChatCompletion [113] ctxs,
                       MetricsInsert row]
         \<and> retrieved_k row = int (length ctxs) \<and> retrieved_k row \<le> 3
         \<and> metrics_rows p' = [row])"
proof -
  have "\<exists>a. fst (answer example_env example_pipeline [113] (Some 3)) = Inr a"
    by (simp add: answer_def retrieve_def generate_answer_def record_metrics_def rerank_def
        example_env_def example_settings_def example_search_def example_chat_def
        example_pipeline_def top_k_or_default_def strip_def is_space_def truthy_def Let_def
        wrap_hit_def get_int_def get_str_def)
  then obtain a p' where h: "answer example_env example_pipeline [113] (Some 3) = (Inr a, p')"
    by (metis prod.collapse)
  show ?thesis
    using h recorded_retrieved_k [OF h]
    by (auto simp: example_env_def example_settings_def example_pipeline_def top_k_or_default_def)
qed

section \<open>EmbeddingService: cache reads and writes\<close>

lemma hash_text_error: "hash_text env t = Inl e \<Longrightarrow> e = UnicodeEncodeError"
  by (auto simp: hash_text_def split: if_splits)

lemma hash_text_ok: "utf8_encodable t \<Longrightarrow> hash_text env t = Inr (sha256_hexdigest env t)"
  by (simp add: hash_text_def)

lemma store_new_error:
  "store_new env ts I offset vs (E, s) = (Some e, E', s') \<Longrightarrow> e = IndexError \<or> e = UnicodeEncodeError"
  by (induction vs arbitrary: offset E s)
     (auto simp: Let_def split: if_splits sum.splits dest: hash_text_error)

lemma vstack_error: "vstack rows = Inl e \<Longrightarrow> e = ValueError"
  by (auto simp: vstack_def split: list.splits if_splits)

lemma vstack_rows: "vstack rows = Inr r \<Longrightarrow> r = map as_row rows"
  by (auto simp: vstack_def split: list.splits if_splits)

lemma save_cache_cache: "cache (save_cache env s) = cache s"
  by (simp add: save_cache_def)

lemma save_cache_calls: "encode_calls (save_cache env s) = encode_calls s"
  by (simp add: save_cache_def)

lemma read_cache_error: "read_cache env c idx ts = Inl e \<Longrightarrow> e = UnicodeEncodeError"
  by (induction ts arbitrary: idx)
     (auto split: sum.splits option.splits dest: hash_text_error)

lemma read_cache_total:
  "list_all utf8_encodable ts \<Longrightarrow> \<exists>E M I. read_cache env c idx ts = Inr (E, M, I)"
proof (induction ts arbitrary: idx)
  case Nil
  then show ?case by simp
next
  case (Cons t ts)
  then obtain E M I where "read_cache env c (Suc idx) ts = Inr (E, M, I)" by fastforce
  with Cons.prems show ?case by (cases "c (sha256_hexdigest env t)") (simp_all add: hash_text_ok)
qed

lemma read_cache_spec:
  "read_cache env c idx ts = Inr (E, M, I) \<Longrightarrow>
     list_all utf8_encodable ts \<and>
     E = map (\<lambda>t. c (sha256_hexdigest env t)) ts \<and> length M = length I \<and>
     M = filter (\<lambda>t. c (sha256_hexdigest env t) = None) ts \<and>
     (\<forall>j < length I. idx \<le> I ! j \<and> I ! j - idx < length ts \<and> ts ! (I ! j - idx) = M ! j) \<and>
     (\<forall>i < length ts. c (sha256_hexdigest env (ts ! i)) = None \<longrightarrow> idx + i \<in> set I)"
proof (induction ts arbitrary: idx E M I)
  case Nil
  then show ?case by simp
next
  case (Cons t ts)
  from Cons.prems have enc: "utf8_encodable t"
    by (auto simp: hash_text_def split: if_splits)
  then have h: "hash_text env t = Inr (sha256_hexdigest env t)" by (rule hash_text_ok)
  from Cons.prems h obtain E1 M1 I1 where r: "read_cache env c (Suc idx) ts = Inr (E1, M1, I1)"
    by (cases "read_cache env c (Suc idx) ts") auto
  note ih = Cons.IH [OF r]
  from ih have ih_enc: "list_all utf8_encodable ts"
    and ih_E: "E1 = map (\<lambda>t. c (sha256_hexdigest env t)) ts"
    and ih_len: "length M1 = length I1"
    and ih_M: "M1 = filter (\<lambda>t. c (sha256_hexdigest env t) = None) ts"
    and ih_I: "\<And>j. j < length I1 \<Longrightarrow>
         Suc idx \<le> I1 ! j \<and> I1 ! j - Suc idx < length ts \<and> ts ! (I1 ! j - Suc idx) = M1 ! j"
    and ih_miss: "\<And>i. i < length ts \<Longrightarrow> c (sha256_hexdigest env (ts ! i)) = None \<Longrightarrow> Suc idx + i \<in> set I1"
    by blast+
  have shift: "\<And>j. j < length I1 \<Longrightarrow>
      idx \<le> I1 ! j \<and> I1 ! j - idx < length (t # ts) \<and> (t # ts) ! (I1 ! j - idx) = M1 ! j"
  proof -
    fix j assume "j < length I1"
    from ih_I [OF this]
    have a: "Suc idx \<le> I1 ! j" "I1 ! j - Suc idx < length ts" "ts ! (I1 ! j - Suc idx) = M1 ! j"
      by simp_all
    then have "I1 ! j - idx = Suc (I1 ! j - Suc idx)" by arith
    with a show "idx \<le> I1 ! j \<and> I1 ! j - idx < length (t # ts) \<and> (t # ts) ! (I1 ! j - idx) = M1 ! j"
      by simp
  qed
  show ?case
  proof (cases "c (sha256_hexdigest env t)")
    case None
    with Cons.prems r h have eq: "E = None # E1" "M = t # M1" "I = idx # I1" by auto
    have pos: "\<forall>j < length I. idx \<le> I ! j \<and> I ! j - idx < length (t # ts) \<and> (t # ts) ! (I ! j - idx) = M ! j"
    proof (intro allI impI)
      fix j assume j: "j < length I"
      show "idx \<le> I ! j \<and> I ! j - idx < length (t # ts) \<and> (t # ts) ! (I ! j - idx) = M ! j"
      proof (cases j)
        case 0
        then show ?thesis by (simp add: eq)
      next
        case (Suc j')
        with j eq have "j' < length I1" by simp
        from shift [OF this] Suc show ?thesis by (simp add: eq)
      qed
    qed
    have miss: "\<forall>i < length (t # ts). c (sha256_hexdigest env ((t # ts) ! i)) = None \<longrightarrow> idx + i \<in> set I"
    proof (intro allI impI)
      fix i assume i: "i < length (t # ts)" "c (sha256_hexdigest env ((t # ts) ! i)) = None"
      show "idx + i \<in> set I"
      proof (cases i)
        case 0
        then show ?thesis by (simp add: eq)
      next
        case (Suc i')
        with i ih_miss [of i'] show ?thesis by (simp add: eq)
      qed
    qed
    have "list_all utf8_encodable (t # ts)" using enc ih_enc by simp
    moreover have "E = map (\<lambda>t. c (sha256_hexdigest env t)) (t # ts)" using ih_E None by (simp add: eq)
    moreover have "length M = length I" using ih_len by (simp add: eq)
    moreover have "M = filter (\<lambda>t. c (sha256_hexdigest env t) = None) (t # ts)"
      using ih_M None by (simp add: eq)
    ultimately show ?thesis using pos miss by blast
  next
    case (Some v)
    with Cons.prems r h have eq: "E = Some v # E1" "M = M1" "I = I1" by auto
    have pos: "\<forall>j < length I. idx \<le> I ! j \<and> I ! j - idx < length (t # ts) \<and> (t # ts) ! (I ! j - idx) = M ! j"
      using shift by (simp add: eq)
    have miss: "\<forall>i < length (t # ts). c (sha256_hexdigest env ((t # ts) ! i)) = None \<longrightarrow> idx + i \<in> set I"
    proof (intro allI impI)
      fix i assume i: "i < length (t # ts)" "c (sha256_hexdigest env ((t # ts) ! i)) = None"
      show "idx + i \<in> set I"
      proof (cases i)
        case 0
        with i Some show ?thesis by simp
      next
        case (Suc i')
        with i ih_miss [of i'] show ?thesis by (simp add: eq)
      qed
    qed
    have "list_all utf8_encodable (t # ts)" using enc ih_enc by simp
    moreover have "E = map (\<lambda>t. c (sha256_hexdigest env t)) (t # ts)" using ih_E Some by (simp add: eq)
    moreover have "length M = length I" using ih_len by (simp add: eq)
    moreover have "M = filter (\<lambda>t. c (sha256_hexdigest env t) = None) (t # ts)"
      using ih_M Some by (simp add: eq)
    ultimately show ?thesis using pos miss by blast
  qed
qed

lemma store_new_calls:
  "store_new env ts I offset vs (E, s) = (err, E', s') \<Longrightarrow> encode_calls s' = encode_calls s"
  by (induction vs arbitrary: offset E s) (auto simp: Let_def split: if_splits sum.splits)

lemma store_new_length:
  "store_new env ts I offset vs (E, s) = (err, E', s') \<Longrightarrow> length E' = length E"
  by (induction vs arbitrary: offset E s) (auto simp: Let_def split: if_splits sum.splits)

lemma embed_batch_state:
  "embed_batch env s M = (res, s1) \<Longrightarrow>
     cache s1 = cache s \<and> cache_dirty s1 = cache_dirty s \<and> cache_file s1 = cache_file s"
  by (auto simp: embed_batch_def load_model_def Let_def split: if_splits option.splits)

lemma embed_batch_calls:
  "embed_batch env s M = (res, s1) \<Longrightarrow>
     encode_calls s1 = encode_calls s @ (if model_loaded s \<or> model_available env then [M] else [])"
  by (auto simp: embed_batch_def load_model_def Let_def split: if_splits option.splits)

text \<open>
  C8. When \<open>embed_texts\<close> fails with the error of the model call (or because the model
  cannot be loaded), the in-memory cache, its dirty flag and the snapshot file are what
  they were before the call. And the model call raising does end the call that way: with
  texts that can be hashed, one of them missing from the cache, a loadable model and an
  \<open>encode\<close> that raises on the batch of misses, \<open>embed_texts\<close> fails with the model's
  error.
\<close>

theorem model_failure_keeps_cache:
  "(fst (embed_texts env s texts_list) = Inl ModelError \<or>
    fst (embed_texts env s texts_list) = Inl RuntimeError \<longrightarrow>
      cache (snd (embed_texts env s texts_list)) = cache s \<and>
      cache_dirty (snd (embed_texts env s texts_list)) = cache_dirty s \<and>
      cache_file (snd (embed_texts env s texts_list)) = cache_file s)
   \<and> (texts_list \<noteq> [] \<and> list_all utf8_encodable texts_list \<and>
       (\<exists>t \<in> set texts_list. cache s (sha256_hexdigest env t) = None) \<and>
       (model_loaded s \<or> model_available env) \<and>
       encode env (filter (\<lambda>t. cache s (sha256_hexdigest env t) = None) texts_list) = None \<longrightarrow>
         fst (embed_texts env s texts_list) = Inl ModelError)"
proof -
  have first: "fst (embed_texts env s texts_list) = Inl ModelError \<or>
      fst (embed_texts env s texts_list) = Inl RuntimeError \<longrightarrow>
      cache (snd (embed_texts env s texts_list)) = cache s \<and>
      cache_dirty (snd (embed_texts env s texts_list)) = cache_dirty s \<and>
      cache_file (snd (embed_texts env s texts_list)) = cache_file s"
  proof (cases "read_cache env (cache s) 0 texts_list")
    case (Inl e)
    then show ?thesis by (simp add: embed_texts_def)
  next
    case (Inr triple)
    then obtain E M I where rc: "read_cache env (cache s) 0 texts_list = Inr (E, M, I)"
      by (cases triple) auto
    obtain res s1 where eb: "embed_batch env s M = (res, s1)"
      by (cases "embed_batch env s M") auto
    note st = embed_batch_state [OF eb]
    show ?thesis
    proof (cases "texts_list = [] \<or> M = []")
      case True
      then show ?thesis using rc by (auto simp: embed_texts_def)
    next
      case False
      show ?thesis
      proof (cases res)
        case (Inl e)
        with False rc eb st show ?thesis by (simp add: embed_texts_def)
      next
        case (Inr vs)
        obtain err E' s2 where sn: "store_new env texts_list I 0 vs (E, s1) = (err, E', s2)"
          by (cases "store_new env texts_list I 0 vs (E, s1)") auto
        show ?thesis
        proof (cases err)
          case None
          with False rc eb Inr sn have "fst (embed_texts env s texts_list) = vstack E'"
            by (simp add: embed_texts_def)
          then show ?thesis using vstack_error [of E'] by auto
        next
          case (Some e)
          with False rc eb Inr sn have "fst (embed_texts env s texts_list) = Inl e"
            by (simp add: embed_texts_def)
          moreover from sn Some have "e = IndexError \<or> e = UnicodeEncodeError"
            by (auto dest: store_new_error)
          ultimately show ?thesis by auto
        qed
      qed
    qed
  qed
  have second: "texts_list \<noteq> [] \<and> list_all utf8_encodable texts_list \<and>
       (\<exists>t \<in> set texts_list. cache s (sha256_hexdigest env t) = None) \<and>
       (model_loaded s \<or> model_available env) \<and>
       encode env (filter (\<lambda>t. cache s (sha256_hexdigest env t) = None) texts_list) = None \<longrightarrow>
         fst (embed_texts env s texts_list) = Inl ModelError"
  proof (intro impI, elim conjE)
    assume a: "texts_list \<noteq> []" "list_all utf8_encodable texts_list"
      "\<exists>t \<in> set texts_list. cache s (sha256_hexdigest env t) = None"
      "model_loaded s \<or> model_available env"
      "encode env (filter (\<lambda>t. cache s (sha256_hexdigest env t) = None) texts_list) = None"
    from read_cache_total [OF a(2)] obtain E M I
      where rc: "read_cache env (cache s) 0 texts_list = Inr (E, M, I)" by blast
    from read_cache_spec [OF rc]
    have M: "M = filter (\<lambda>t. cache s (sha256_hexdigest env t) = None) texts_list" by simp
    from a(3) M have "M \<noteq> []" by (auto simp: filter_empty_conv)
    moreover from a(4,5) M have "fst (embed_batch env s M) = Inl ModelError"
      by (auto simp: embed_batch_def load_model_def Let_def)
    ultimately show "fst (embed_texts env s texts_list) = Inl ModelError"
      using a(1) rc by (cases "embed_batch env s M") (auto simp: embed_texts_def)
  qed
  from first second show ?thesis by blast
qed

text \<open>A model that raises, on a fresh service and one text.\<close>

theorem model_failure_keeps_cache_witness:
  "fst (embed_texts failing_env empty_service [[97]]) = Inl ModelError
   \<and> cache (snd (embed_texts failing_env empty_service [[97]])) = cache empty_service
   \<and> cache_dirty (snd (embed_texts failing_env empty_service [[97]])) = cache_dirty empty_service"
proof -
  have h: "fst (embed_texts failing_env empty_service [[97]]) = Inl ModelError"
    by (simp add: embed_texts_def embed_batch_def load_model_def failing_env_def env_with_def
        failing_encode_def empty_service_def hash_text_def utf8_encodable_def Let_def)
  show ?thesis
    using h model_failure_keeps_cache [of failing_env empty_service "[[97]]"] by simp
qed

lemma store_new_agrees:
  assumes "agrees env ts c0 F E s"
    and "list_all utf8_encodable ts"
    and "\<forall>j < length vs. offset + j < length I \<longrightarrow>
           vs ! j = F (sha256_hexdigest env (ts ! (I ! (offset + j))))"
    and "\<forall>i \<in> set I. i < length ts \<and> c0 (sha256_hexdigest env (ts ! i)) = None"
    and "store_new env ts I offset vs (E, s) = (err, E', s')"
  shows "agrees env ts c0 F E' s'"
  using assms(1,3,5)
proof (induction vs arbitrary: offset E s)
  case Nil
  then show ?case by simp
next
  case (Cons v vs)
  show ?case
  proof (cases "offset < length I")
    case False
    with Cons.prems show ?thesis by simp
  next
    case True
    let ?t = "I ! offset"
    let ?k = "sha256_hexdigest env (ts ! ?t)"
    let ?E = "E[?t := Some v]"
    let ?s = "s\<lparr>cache := (cache s)(?k \<mapsto> v), cache_dirty := True\<rparr>"
    from True assms(4) have t: "?t < length ts" "c0 ?k = None" by auto
    from t(1) assms(2) have "utf8_encodable (ts ! ?t)" by (simp add: list_all_length)
    then have h: "hash_text env (ts ! ?t) = Inr ?k" by (rule hash_text_ok)
    from Cons.prems(2) True have v: "v = F ?k" by (auto dest: spec[of _ 0])
    from Cons.prems(1) have len: "length E = length ts"
      and j1: "\<And>i. i < length ts \<Longrightarrow> E ! i \<noteq> None \<Longrightarrow> cache s (sha256_hexdigest env (ts ! i)) = E ! i"
      and j2: "\<And>k. cache s k = c0 k \<or> cache s k = Some (F k)"
      by (auto simp: agrees_def)
    have "agrees env ts c0 F ?E ?s"
      unfolding agrees_def
    proof (intro conjI allI impI)
      show "length ?E = length ts" using len by simp
    next
      fix i assume i: "i < length ts" and ne: "?E ! i \<noteq> None"
      show "cache ?s (sha256_hexdigest env (ts ! i)) = ?E ! i"
      proof (cases "i = ?t")
        case True
        then show ?thesis using t len by simp
      next
        case False
        then have e: "?E ! i = E ! i" by simp
        show ?thesis
        proof (cases "sha256_hexdigest env (ts ! i) = ?k")
          case True
          from ne e have "E ! i \<noteq> None" by simp
          with j1[OF i] have c: "cache s ?k = E ! i" "cache s ?k \<noteq> None" using True by auto
          with j2[of ?k] t have "cache s ?k = Some (F ?k)" by auto
          with c v True e show ?thesis by simp
        next
          case False
          with j1[OF i] ne e show ?thesis by simp
        qed
      qed
    next
      fix k
      show "cache ?s k = c0 k \<or> cache ?s k = Some (F k)"
        using j2[of k] v by auto
    qed
    moreover have "\<forall>j < length vs. Suc offset + j < length I \<longrightarrow>
        vs ! j = F (sha256_hexdigest env (ts ! (I ! (Suc offset + j))))"
    proof (intro allI impI)
      fix j assume "j < length vs" "Suc offset + j < length I"
      with Cons.prems(2)[rule_format, of "Suc j"]
      show "vs ! j = F (sha256_hexdigest env (ts ! (I ! (Suc offset + j))))"
        by simp
    qed
    moreover from Cons.prems(3) True h have "store_new env ts I (Suc offset) vs (?E, ?s) = (err, E', s')"
      by (simp add: Let_def)
    ultimately show ?thesis using Cons.IH by blast
  qed
qed

lemma store_new_filled:
  assumes "list_all utf8_encodable ts" "\<forall>i \<in> set I. i < length ts" "length E = length ts"
    and "store_new env ts I offset vs (E, s) = (None, E', s')"
  shows "(\<forall>i < length ts. E ! i \<noteq> None \<longrightarrow> E' ! i \<noteq> None)
       \<and> (\<forall>j < length vs. E' ! (I ! (offset + j)) \<noteq> None)"
  using assms(3,4)
proof (induction vs arbitrary: offset E s)
  case Nil
  then show ?case by simp
next
  case (Cons v vs)
  from Cons.prems(2) have off: "offset < length I" by (auto split: if_splits)
  let ?t = "I ! offset"
  let ?k = "sha256_hexdigest env (ts ! ?t)"
  let ?E = "E[?t := Some v]"
  let ?s = "s\<lparr>cache := (cache s)(?k \<mapsto> v), cache_dirty := True\<rparr>"
  from off assms(2) have t: "?t < length ts" by auto
  with assms(1) have "utf8_encodable (ts ! ?t)" by (simp add: list_all_length)
  then have h: "hash_text env (ts ! ?t) = Inr ?k" by (rule hash_text_ok)
  from Cons.prems(2) off h have sn: "store_new env ts I (Suc offset) vs (?E, ?s) = (None, E', s')"
    by (simp add: Let_def)
  have len: "length ?E = length ts" using Cons.prems(1) by simp
  from Cons.IH [OF len sn]
  have ih2: "\<And>i. i < length ts \<Longrightarrow> ?E ! i \<noteq> None \<Longrightarrow> E' ! i \<noteq> None"
    and ih3: "\<And>j. j < length vs \<Longrightarrow> E' ! (I ! (Suc offset + j)) \<noteq> None"
    by auto
  have b: "\<forall>i < length ts. E ! i \<noteq> None \<longrightarrow> E' ! i \<noteq> None"
  proof (intro allI impI)
    fix i assume i: "i < length ts" "E ! i \<noteq> None"
    then have "?E ! i \<noteq> None"
      using Cons.prems(1) by (cases "i = ?t") simp_all
    with ih2 [OF i(1)] show "E' ! i \<noteq> None" by simp
  qed
  have c: "\<forall>j < length (v # vs). E' ! (I ! (offset + j)) \<noteq> None"
  proof (intro allI impI)
    fix j assume j: "j < length (v # vs)"
    show "E' ! (I ! (offset + j)) \<noteq> None"
    proof (cases j)
      case 0
      have "?E ! ?t \<noteq> None" using t Cons.prems(1) by simp
      with ih2 [OF t] 0 show ?thesis by simp
    next
      case (Suc j')
      with j ih3 [of j'] show ?thesis by simp
    qed
  qed
  from b c show ?case by blast
qed

lemma encode_function:
  assumes "encode_consistent env" "inj_on (sha256_hexdigest env) (set M)" "encode env M = Some vs"
  shows "\<exists>F. \<forall>j < length vs. j < length M \<longrightarrow>
           map (float32 env) (vs ! j) = F (sha256_hexdigest env (M ! j))"
proof -
  define F where "F k = map (float32 env)
      (vs ! (SOME j. j < length vs \<and> j < length M \<and> sha256_hexdigest env (M ! j) = k))" for k
  have "\<forall>j < length vs. j < length M \<longrightarrow> map (float32 env) (vs ! j) = F (sha256_hexdigest env (M ! j))"
  proof (intro allI impI)
    fix j assume j: "j < length vs" "j < length M"
    define j' where "j' = (SOME j'. j' < length vs \<and> j' < length M \<and>
        sha256_hexdigest env (M ! j') = sha256_hexdigest env (M ! j))"
    have "j < length vs \<and> j < length M \<and> sha256_hexdigest env (M ! j) = sha256_hexdigest env (M ! j)"
      using j by simp
    then have "j' < length vs \<and> j' < length M \<and>
        sha256_hexdigest env (M ! j') = sha256_hexdigest env (M ! j)"
      unfolding j'_def by (rule someI)
    then have p: "j' < length vs" "j' < length M"
      "sha256_hexdigest env (M ! j') = sha256_hexdigest env (M ! j)"
      by simp_all
    have "M ! j' \<in> set M" "M ! j \<in> set M" using p(2) j(2) by simp_all
    with assms(2) p(3) have eq: "M ! j' = M ! j" by (simp add: inj_on_def)
    have "vs ! j' = vs ! j"
      using assms(1) assms(3) p(1,2) j eq unfolding encode_consistent_def by blast
    then show "map (float32 env) (vs ! j) = F (sha256_hexdigest env (M ! j))"
      by (simp add: F_def j'_def)
  qed
  then show ?thesis by blast
qed

lemma asarray_float32_rows:
  "asarray_float32 env vs = Inr vs' \<Longrightarrow> vs' = map (map (float32 env)) vs"
  by (auto simp: asarray_float32_def split: list.splits if_splits)

lemma as_row_no_None: "r \<noteq> None \<Longrightarrow> None \<notin> set (as_row r)"
  by (auto simp: as_row_def)

text \<open>
  C5, as the code has it. After a call of \<open>embed_texts\<close> that returned, a second call
  with the same input list returns the same rows and leaves the service as it is, so the
  model is not invoked again, and every text of the list is then a cache hit, provided that
  the digests of the texts do not collide, that the model returns one vector per text of a
  batch, and that it gives equal vectors to equal texts of one batch. (The first call hands
  a repeated miss to the model once per occurrence and caches the vector of the last; and
  a row the model did not return stays \<open>None\<close>, uncached.)
\<close>

theorem second_call_served_from_cache:
  assumes "embed_texts env s texts_list = (Inr r, s')"
    and "inj_on (sha256_hexdigest env) (set texts_list)"
    and "encode_one_per_text env"
    and "encode_consistent env"
  shows "embed_texts env s' texts_list = (Inr r, s')
       \<and> encode_calls (snd (embed_texts env s' texts_list)) = encode_calls s'
       \<and> (\<forall>t \<in> set texts_list. cache s' (sha256_hexdigest env t) \<noteq> None)"
proof (cases "texts_list = []")
  case True
  with assms(1) show ?thesis by (auto simp: embed_texts_def)
next
  case ne: False
  from assms(1) ne obtain E M I where rc: "read_cache env (cache s) 0 texts_list = Inr (E, M, I)"
    by (cases "read_cache env (cache s) 0 texts_list") (auto simp: embed_texts_def)
  note spec = read_cache_spec [OF rc]
  from spec have enc_all: "list_all utf8_encodable texts_list"
    and E: "E = map (\<lambda>t. cache s (sha256_hexdigest env t)) texts_list"
    and M: "M = filter (\<lambda>t. cache s (sha256_hexdigest env t) = None) texts_list"
    and lenMI: "length M = length I"
    and I: "\<And>j. j < length I \<Longrightarrow> I ! j < length texts_list \<and> texts_list ! (I ! j) = M ! j"
    and miss: "\<And>i. i < length texts_list \<Longrightarrow>
                 cache s (sha256_hexdigest env (texts_list ! i)) = None \<Longrightarrow> i \<in> set I"
    by auto
  show ?thesis
  proof (cases "M = []")
    case True
    with assms(1) ne rc have "s' = s" by (simp add: embed_texts_def)
    moreover from True M have "\<forall>t \<in> set texts_list. cache s (sha256_hexdigest env t) \<noteq> None"
      by (auto simp: filter_empty_conv)
    ultimately show ?thesis using assms(1) by simp
  next
    case False
    obtain res s1 where eb: "embed_batch env s M = (res, s1)"
      by (cases "embed_batch env s M") auto
    from assms(1) ne rc False eb obtain vs' where res: "res = Inr vs'"
      by (cases res) (auto simp: embed_texts_def)
    from eb res obtain vs where enc: "encode env M = Some vs" and conv: "asarray_float32 env vs = Inr vs'"
      by (auto simp: embed_batch_def load_model_def Let_def split: if_splits option.splits)
    from asarray_float32_rows [OF conv] have vs': "vs' = map (map (float32 env)) vs" .
    from assms(3) enc have lenvs: "length vs = length M" by (simp add: encode_one_per_text_def)
    note st1 = embed_batch_state [OF eb]
    obtain err E' s2 where sn: "store_new env texts_list I 0 vs' (E, s1) = (err, E', s2)"
      by (cases "store_new env texts_list I 0 vs' (E, s1)") auto
    from assms(1) ne rc False eb res sn have err: "err = None"
      by (cases err) (auto simp: embed_texts_def)
    from assms(1) ne rc False eb res sn err have vr: "vstack E' = Inr r" and s': "s' = save_cache env s2"
      by (auto simp: embed_texts_def)
    have "set M \<subseteq> set texts_list" using M by auto
    with assms(2) have "inj_on (sha256_hexdigest env) (set M)" by (rule inj_on_subset)
    from encode_function [OF assms(4) this enc]
    obtain F where F: "\<And>j. j < length vs \<Longrightarrow> j < length M \<Longrightarrow>
        map (float32 env) (vs ! j) = F (sha256_hexdigest env (M ! j))"
      by blast
    have a0: "agrees env texts_list (cache s) F E s1"
      using st1 by (simp add: agrees_def E)
    have a1: "\<forall>j < length vs'. 0 + j < length I \<longrightarrow>
                vs' ! j = F (sha256_hexdigest env (texts_list ! (I ! (0 + j))))"
      using F I lenMI by (simp add: vs')
    have a2: "\<forall>i \<in> set I. i < length texts_list \<and> cache s (sha256_hexdigest env (texts_list ! i)) = None"
    proof
      fix i assume "i \<in> set I"
      then obtain j where j: "j < length I" "I ! j = i" by (auto simp: in_set_conv_nth)
      with I[of j] have "i < length texts_list" "texts_list ! i = M ! j" by auto
      moreover from j lenMI have "M ! j \<in> set M" by simp
      then have "cache s (sha256_hexdigest env (M ! j)) = None" using M by auto
      ultimately show "i < length texts_list \<and> cache s (sha256_hexdigest env (texts_list ! i)) = None"
        by simp
    qed
    from store_new_agrees [OF a0 enc_all a1 a2 sn] have ag: "agrees env texts_list (cache s) F E' s2" .
    have lenE: "length E = length texts_list" by (simp add: E)
    from a2 have a2': "\<forall>i \<in> set I. i < length texts_list" by blast
    from store_new_filled [OF enc_all a2' lenE sn [unfolded err]]
    have keep: "\<And>i. i < length texts_list \<Longrightarrow> E ! i \<noteq> None \<Longrightarrow> E' ! i \<noteq> None"
      and fill: "\<And>j. j < length vs' \<Longrightarrow> E' ! (I ! j) \<noteq> None"
      by auto
    have full: "\<And>i. i < length texts_list \<Longrightarrow> E' ! i \<noteq> None"
    proof -
      fix i assume i: "i < length texts_list"
      show "E' ! i \<noteq> None"
      proof (cases "cache s (sha256_hexdigest env (texts_list ! i))")
        case None
        from miss [OF i None] obtain j where j: "j < length I" "I ! j = i"
          by (auto simp: in_set_conv_nth)
        with lenMI lenvs have "j < length vs'" by (simp add: vs')
        from fill [OF this] j show ?thesis by simp
      next
        case (Some v)
        with i have "E ! i \<noteq> None" by (simp add: E)
        from keep [OF i this] show ?thesis .
      qed
    qed
    from ag have len: "length E' = length texts_list"
      and hit: "\<And>i. i < length texts_list \<Longrightarrow> E' ! i \<noteq> None \<Longrightarrow>
                 cache s2 (sha256_hexdigest env (texts_list ! i)) = E' ! i"
      by (auto simp: agrees_def)
    have all: "\<And>i. i < length texts_list \<Longrightarrow>
        cache s2 (sha256_hexdigest env (texts_list ! i)) = E' ! i \<and> E' ! i \<noteq> None"
      using hit full by simp
    have c': "cache s' = cache s2" by (simp add: s' save_cache_cache)
    from read_cache_total [OF enc_all] obtain E2 M2 I2
      where rc2: "read_cache env (cache s') 0 texts_list = Inr (E2, M2, I2)" by blast
    from read_cache_spec [OF rc2]
    have E2: "E2 = map (\<lambda>t. cache s' (sha256_hexdigest env t)) texts_list"
      and M2: "M2 = filter (\<lambda>t. cache s' (sha256_hexdigest env t) = None) texts_list" by auto
    have hits: "\<forall>t \<in> set texts_list. cache s' (sha256_hexdigest env t) \<noteq> None"
    proof
      fix t assume "t \<in> set texts_list"
      then obtain i where "i < length texts_list" "texts_list ! i = t" by (auto simp: in_set_conv_nth)
      with all [of i] c' show "cache s' (sha256_hexdigest env t) \<noteq> None" by auto
    qed
    then have "M2 = []" using M2 by (auto simp: filter_empty_conv)
    moreover have "E2 = E'"
      by (rule nth_equalityI) (use E2 len all c' in auto)
    ultimately have "embed_texts env s' texts_list = (Inr r, s')"
      using ne rc2 vr by (simp add: embed_texts_def)
    with hits show ?thesis by simp
  qed
qed

text \<open>
  C5 as the specification states it fails. With a model that numbers its rows, the first
  call on \<open>[a, b, a]\<close> returns the rows 0, 1, 2 and the second the rows 2, 1, 2; with a
  model that returns no row, the first call on \<open>[a]\<close> returns the row \<open>[None]\<close> and the
  second call invokes the model again.
\<close>

theorem second_call_served_from_cache_counterexample:
  "fst (embed_texts position_env empty_service [[97], [98], [97]]) =
     Inr [[Some 0], [Some 1], [Some 2]]
   \<and> fst (embed_texts position_env (snd (embed_texts position_env empty_service [[97], [98], [97]]))
            [[97], [98], [97]]) =
     Inr [[Some 2], [Some 1], [Some 2]]
   \<and> fst (embed_texts silent_env empty_service [[97]]) = Inr [[None]]
   \<and> encode_calls (snd (embed_texts silent_env (snd (embed_texts silent_env empty_service [[97]]))
            [[97]])) = [[[97]], [[97]]]"
  by (simp add: embed_texts_def embed_batch_def load_model_def save_cache_def vstack_def as_row_def
      asarray_float32_def hash_text_def utf8_encodable_def
      position_env_def silent_env_def env_with_def position_encode_def position_vec_def
      silent_encode_def exact_def identity_hash_def empty_service_def Let_def)

text \<open>Two calls on a fresh service with a repeated text: one batch, the same rows twice.\<close>

theorem second_call_served_from_cache_witness:
  "inj_on (sha256_hexdigest unit_env) (set [[97], [98, 98], [97]])
   \<and> encode_one_per_text unit_env
   \<and> encode_consistent unit_env
   \<and> fst (embed_texts unit_env empty_service [[97], [98, 98], [97]]) =
       Inr [[Some 1], [Some 2], [Some 1]]
   \<and> fst (embed_texts unit_env (snd (embed_texts unit_env empty_service [[97], [98, 98], [97]]))
            [[97], [98, 98], [97]]) = Inr [[Some 1], [Some 2], [Some 1]]
   \<and> encode_calls (snd (embed_texts unit_env (snd (embed_texts unit_env empty_service [[97], [98, 98], [97]]))
            [[97], [98, 98], [97]])) =
       encode_calls (snd (embed_texts unit_env empty_service [[97], [98, 98], [97]]))"
proof -
  have h1: "fst (embed_texts unit_env empty_service [[97], [98, 98], [97]]) =
      Inr [[Some 1], [Some 2], [Some 1]]"
    by (simp add: embed_texts_def embed_batch_def load_model_def save_cache_def vstack_def as_row_def
        asarray_float32_def hash_text_def utf8_encodable_def
        unit_env_def env_with_def unit_encode_def unit_vec_def exact_def identity_hash_def
        empty_service_def Let_def)
  then have h1': "embed_texts unit_env empty_service [[97], [98, 98], [97]] =
      (Inr [[Some 1], [Some 2], [Some 1]], snd (embed_texts unit_env empty_service [[97], [98, 98], [97]]))"
    by (metis prod.collapse)
  have h2: "inj_on (sha256_hexdigest unit_env) (set [[97], [98, 98], [97]])"
    by (simp add: unit_env_def env_with_def identity_hash_def inj_on_def)
  have h3: "encode_one_per_text unit_env"
    by (auto simp: encode_one_per_text_def unit_env_def env_with_def unit_encode_def)
  have h4: "encode_consistent unit_env"
    by (auto simp: encode_consistent_def unit_env_def env_with_def unit_encode_def)
  show ?thesis
    using h1 h2 h3 h4 second_call_served_from_cache [OF h1' h2 h3 h4] by simp
qed

text \<open>
  C2, as the code has it. On a cache that holds neither \<open>a\<close> nor \<open>b\<close> (two texts that
  can be hashed), \<open>embed_texts([a, b, a])\<close> invokes the model exactly once (not at all
  when the model cannot be loaded), and the batch it hands over is \<open>[a, b, a]\<close>: the
  repeated text is sent twice, misses are not deduplicated. A call that returns gives
  three rows; when the model returned three vectors they are these, rounded to
  \<open>float32\<close>, in order, so row 0 equals row 2 when the model gave the two occurrences of
  \<open>a\<close> the same vector.
\<close>

theorem embed_texts_repeated_text:
  assumes "utf8_encodable a" and "utf8_encodable b"
    and "cache s (sha256_hexdigest env a) = None" and "cache s (sha256_hexdigest env b) = None"
  shows "encode_calls (snd (embed_texts env s [a, b, a])) =
           encode_calls s @ (if model_loaded s \<or> model_available env then [[a, b, a]] else [])
       \<and> (\<forall>rows. fst (embed_texts env s [a, b, a]) = Inr rows \<longrightarrow> length rows = 3)
       \<and> (\<forall>x y z rows. encode env [a, b, a] = Some [x, y, z] \<longrightarrow>
             fst (embed_texts env s [a, b, a]) = Inr rows \<longrightarrow>
               rows = [map Some (map (float32 env) x), map Some (map (float32 env) y),
                       map Some (map (float32 env) z)]
               \<and> (x = z \<longrightarrow> rows ! 0 = rows ! 2))"
proof -
  have rc: "read_cache env (cache s) 0 [a, b, a] = Inr ([None, None, None], [a, b, a], [0, 1, 2])"
    using assms by (simp add: hash_text_ok)
  obtain res s1 where eb: "embed_batch env s [a, b, a] = (res, s1)"
    by (cases "embed_batch env s [a, b, a]") auto
  note calls1 = embed_batch_calls [OF eb]
  show ?thesis
  proof (cases res)
    case (Inl e)
    with rc eb have "embed_texts env s [a, b, a] = (Inl e, s1)" by (simp add: embed_texts_def)
    with calls1 show ?thesis by simp
  next
    case (Inr vs')
    obtain err E' s2 where sn:
      "store_new env [a, b, a] [0, 1, 2] 0 vs' ([None, None, None], s1) = (err, E', s2)"
      by (cases "store_new env [a, b, a] [0, 1, 2] 0 vs' ([None, None, None], s1)") auto
    have et: "embed_texts env s [a, b, a] =
        (case err of Some e \<Rightarrow> (Inl e, s2) | None \<Rightarrow> (vstack E', save_cache env s2))"
      using rc eb Inr sn by (simp add: embed_texts_def split: option.splits)
    have calls: "encode_calls (snd (embed_texts env s [a, b, a])) =
        encode_calls s @ (if model_loaded s \<or> model_available env then [[a, b, a]] else [])"
      using et calls1 store_new_calls [OF sn] by (simp add: save_cache_calls split: option.splits)
    have three: "\<forall>rows. fst (embed_texts env s [a, b, a]) = Inr rows \<longrightarrow> length rows = 3"
      using et store_new_length [OF sn] by (auto split: option.splits dest: vstack_rows)
    have rows: "\<forall>x y z rows. encode env [a, b, a] = Some [x, y, z] \<longrightarrow>
             fst (embed_texts env s [a, b, a]) = Inr rows \<longrightarrow>
               rows = [map Some (map (float32 env) x), map Some (map (float32 env) y),
                       map Some (map (float32 env) z)]
               \<and> (x = z \<longrightarrow> rows ! 0 = rows ! 2)"
    proof (intro allI impI)
      fix x y z rows
      assume e: "encode env [a, b, a] = Some [x, y, z]"
        and r: "fst (embed_texts env s [a, b, a]) = Inr rows"
      from eb Inr e have "asarray_float32 env [x, y, z] = Inr vs'"
        by (auto simp: embed_batch_def load_model_def Let_def split: if_splits)
      from asarray_float32_rows [OF this]
      have vs': "vs' = [map (float32 env) x, map (float32 env) y, map (float32 env) z]" by simp
      from sn assms(1,2) have "err = None"
        and E': "E' = [Some (map (float32 env) x), Some (map (float32 env) y), Some (map (float32 env) z)]"
        by (simp_all add: vs' hash_text_ok Let_def)
      with et r have "vstack E' = Inr rows" by simp
      from vstack_rows [OF this] E'
      have "rows = [map Some (map (float32 env) x), map Some (map (float32 env) y),
                       map Some (map (float32 env) z)]"
        by (simp add: as_row_def)
      then show "rows = [map Some (map (float32 env) x), map Some (map (float32 env) y),
                       map Some (map (float32 env) z)]
               \<and> (x = z \<longrightarrow> rows ! 0 = rows ! 2)" by simp
    qed
    from calls three rows show ?thesis by blast
  qed
qed

text \<open>
  C2 as the specification states it fails: the one batch the model receives holds three
  texts, with \<open>a\<close> twice, not the two distinct texts; and with a model that numbers its
  rows, row 0 and row 2 of the result differ.
\<close>

theorem embed_texts_repeated_text_counterexample:
  "cache empty_service (sha256_hexdigest unit_env [97]) = None
   \<and> cache empty_service (sha256_hexdigest unit_env [98, 98]) = None
   \<and> encode_calls (snd (embed_texts unit_env empty_service [[97], [98, 98], [97]])) =
       [[[97], [98, 98], [97]]]
   \<and> \<not> distinct [[97], [98, 98], [97::nat]]
   \<and> length [[97], [98, 98], [97::nat]] = 3
   \<and> fst (embed_texts position_env empty_service [[97], [98, 98], [97]]) =
       Inr [[Some 0], [Some 1], [Some 2]]
   \<and> [Some 0] \<noteq> [Some (2::real)]"
  by (simp add: embed_texts_def embed_batch_def load_model_def save_cache_def vstack_def as_row_def
      asarray_float32_def hash_text_def utf8_encodable_def position_env_def position_encode_def
      position_vec_def
      unit_env_def env_with_def unit_encode_def unit_vec_def exact_def identity_hash_def
      empty_service_def Let_def)

text \<open>The same call with the model that maps a text to its length.\<close>

theorem embed_texts_repeated_text_witness:
  "utf8_encodable [97] \<and> utf8_encodable [98, 98]
   \<and> cache empty_service (sha256_hexdigest unit_env [97]) = None
   \<and> cache empty_service (sha256_hexdigest unit_env [98, 98]) = None
   \<and> encode unit_env [[97], [98, 98], [97]] = Some [[1], [2], [1]]
   \<and> fst (embed_texts unit_env empty_service [[97], [98, 98], [97]]) =
       Inr [[Some 1], [Some 2], [Some 1]]
   \<and> encode_calls (snd (embed_texts unit_env empty_service [[97], [98, 98], [97]])) =
       encode_calls empty_service @ [[[97], [98, 98], [97]]]"
proof -
  have e: "utf8_encodable [97]" "utf8_encodable [98, 98]"
    by (simp_all add: utf8_encodable_def)
  have h: "cache empty_service (sha256_hexdigest unit_env [97]) = None"
     "cache empty_service (sha256_hexdigest unit_env [98, 98]) = None"
    by (simp_all add: empty_service_def)
  have m: "model_available unit_env" "float32 unit_env = exact"
    "encode unit_env [[97], [98, 98], [97]] = Some [[1], [2], [1]]"
    by (simp_all add: unit_env_def env_with_def unit_encode_def unit_vec_def)
  have r: "\<exists>rows. fst (embed_texts unit_env empty_service [[97], [98, 98], [97]]) = Inr rows"
    by (simp add: embed_texts_def embed_batch_def load_model_def save_cache_def vstack_def as_row_def
        asarray_float32_def hash_text_def utf8_encodable_def
        unit_env_def env_with_def unit_encode_def unit_vec_def exact_def identity_hash_def
        empty_service_def Let_def)
  show ?thesis
    using e h m r embed_texts_repeated_text [OF e h] by (auto simp: exact_def)
qed

section \<open>Chunker: offsets, order and chunk ids\<close>

subsection \<open>Lengths\<close>

lemma length_strip: "length (strip s) \<le> length s"
proof -
  have "length (strip s) \<le> length (dropWhile is_space s)"
    unfolding strip_def using length_dropWhile_le [of is_space "rev (dropWhile is_space s)"] by simp
  also have "\<dots> \<le> length s" by (rule length_dropWhile_le)
  finally show ?thesis .
qed

lemma total_length_append: "total_length (xs @ ys) = total_length xs + total_length ys"
  by (simp add: total_length_def)

lemma total_length_concat: "total_length xs = int (length (concat xs))"
  by (induction xs) (simp_all add: total_length_def)

lemma total_length_nonneg: "0 \<le> total_length xs"
  by (simp add: total_length_concat)

lemma concat_sep_split: "concat (sep_split t) = t"
  by (induction t) (auto split: list.splits)

lemma split_loop_length:
  "total_length (fst (split_loop parts S B)) + int (length (snd (split_loop parts S B)))
     \<le> total_length S + int (length B) + total_length parts"
proof (induction parts arbitrary: S B)
  case Nil
  then show ?case by (simp add: total_length_def)
next
  case (Cons part parts)
  have p: "total_length (part # parts) = int (length part) + total_length parts"
    by (simp add: total_length_def)
  show ?case
  proof (cases "strip part = []")
    case True
    with Cons.IH [of S B] p show ?thesis by simp
  next
    case ne: False
    show ?thesis
    proof (cases "sep_search part")
      case True
      have "total_length (S @ [strip (B @ part)]) \<le> total_length S + int (length B) + int (length part)"
        using length_strip [of "B @ part"] by (simp add: total_length_def)
      with Cons.IH [of "S @ [strip (B @ part)]" "[]"] ne True p show ?thesis by simp
    next
      case False
      with Cons.IH [of S "B @ part"] ne p show ?thesis by simp
    qed
  qed
qed

lemma split_sentences_length: "total_length (split_sentences t) \<le> int (length t)"
proof -
  obtain S B where sl: "split_loop (sep_split t) [] [] = (S, B)"
    by (cases "split_loop (sep_split t) [] []") auto
  from split_loop_length [of "sep_split t" "[]" "[]"] sl
  have le: "total_length S + int (length B) \<le> int (length t)"
    by (simp add: total_length_concat concat_sep_split)
  have "total_length (S @ [strip B]) \<le> total_length S + int (length B)"
    using length_strip [of B] by (simp add: total_length_def)
  with le have a: "total_length (S @ [strip B]) \<le> int (length t)" by simp
  from le have b: "total_length S \<le> int (length t)" by simp
  have c: "total_length [t] = int (length t)" by (simp add: total_length_def)
  show ?thesis
    using a b c sl by (auto simp: split_sentences_def Let_def)
qed

subsection \<open>The window\<close>

lemma shrink_suffix: "\<exists>dropped. cc = dropped @ fst (shrink cc len overlap)"
proof (induction cc arbitrary: len)
  case Nil
  then show ?case by simp
next
  case (Cons s cc)
  show ?case
  proof (cases "len > overlap")
    case True
    from Cons.IH [of "len - int (length s)"] obtain dropped
      where "cc = dropped @ fst (shrink cc (len - int (length s)) overlap)" by blast
    then have "s # cc = (s # dropped) @ fst (shrink (s # cc) len overlap)"
      using True by simp
    then show ?thesis by blast
  next
    case False
    then have "s # cc = [] @ fst (shrink (s # cc) len overlap)" by simp
    then show ?thesis by blast
  qed
qed

lemma make_chunk_fields:
  assumes "chunker_inv document seen st"
  shows "start_index (make_chunk document st) = text_cursor st - current_length st"
    and "start_index (make_chunk document st) \<le> end_index (make_chunk document st)"
    and "end_index (make_chunk document st) \<le> text_cursor st"
    and "chunk_id (make_chunk document st) = make_chunk_id document (length (chunks st))"
proof -
  from assms obtain dropped where d: "seen = dropped @ current_chunk st"
    and tc: "text_cursor st = total_length seen"
    and cl: "current_length st = total_length (current_chunk st)"
    and ci: "chunk_index st = length (chunks st)"
    by (auto simp: chunker_inv_def)
  have ge: "0 \<le> text_cursor st - current_length st"
    using tc cl d total_length_nonneg [of dropped] by (simp add: total_length_append)
  then show s: "start_index (make_chunk document st) = text_cursor st - current_length st"
    by (simp add: make_chunk_def Let_def)
  show "start_index (make_chunk document st) \<le> end_index (make_chunk document st)"
    by (simp add: make_chunk_def Let_def)
  have "int (length (strip (concat (current_chunk st)))) \<le> current_length st"
    using length_strip [of "concat (current_chunk st)"] cl by (simp add: total_length_concat)
  then show "end_index (make_chunk document st) \<le> text_cursor st"
    using ge by (simp add: make_chunk_def Let_def)
  show "chunk_id (make_chunk document st) = make_chunk_id document (length (chunks st))"
    using ci by (simp add: make_chunk_def make_chunk_id_def Let_def)
qed

lemma chunker_inv_append:
  assumes "chunker_inv document seen st"
  shows "chunker_inv document (seen @ [sentence])
           (st\<lparr>current_chunk := current_chunk st @ [sentence],
               current_length := current_length st + int (length sentence),
               text_cursor := text_cursor st + int (length sentence)\<rparr>)"
  using assms unfolding chunker_inv_def
  by (auto simp: total_length_append total_length_def)

lemma chunker_inv_close:
  assumes "chunker_inv document seen st"
  shows "chunker_inv document seen (close_window document overlap st)"
proof -
  let ?mk = "make_chunk document st"
  let ?kept = "fst (shrink (current_chunk st) (current_length st) overlap)"
  note f = make_chunk_fields [OF assms]
  from assms obtain dropped where d: "seen = dropped @ current_chunk st"
    and tc: "text_cursor st = total_length seen"
    and cl: "current_length st = total_length (current_chunk st)"
    and ci: "chunk_index st = length (chunks st)"
    and ids: "map chunk_id (chunks st) = map (make_chunk_id document) [0..<length (chunks st)]"
    and old: "\<And>c. c \<in> set (chunks st) \<Longrightarrow> start_index c \<le> end_index c \<and>
                end_index c \<le> text_cursor st \<and> start_index c \<le> text_cursor st - current_length st"
    and srt: "sorted (map start_index (chunks st))"
    by (auto simp: chunker_inv_def)
  from shrink_suffix [of "current_chunk st" "current_length st" overlap]
  obtain dr where k: "current_chunk st = dr @ ?kept" by blast
  have kl: "total_length ?kept \<le> current_length st"
  proof -
    have "total_length (current_chunk st) = total_length dr + total_length ?kept"
      using k by (metis total_length_append)
    with cl total_length_nonneg [of dr] show ?thesis by simp
  qed
  have suffix: "\<exists>dropped'. seen = dropped' @ ?kept"
  proof -
    from d k have "seen = (dropped @ dr) @ ?kept" by (metis append.assoc)
    then show ?thesis by blast
  qed
  have bounds: "\<forall>c \<in> set (chunks st @ [?mk]). start_index c \<le> end_index c \<and>
      end_index c \<le> text_cursor st \<and> start_index c \<le> text_cursor st - total_length ?kept"
  proof
    fix c assume "c \<in> set (chunks st @ [?mk])"
    then consider "c \<in> set (chunks st)" | "c = ?mk" by auto
    then show "start_index c \<le> end_index c \<and> end_index c \<le> text_cursor st \<and>
        start_index c \<le> text_cursor st - total_length ?kept"
    proof cases
      case 1
      from old [OF this] kl show ?thesis by linarith
    next
      case 2
      show ?thesis unfolding 2 using f(1,2,3) kl by linarith
    qed
  qed
  have sorted': "sorted (map start_index (chunks st @ [?mk]))"
    using srt old f(1) by (fastforce simp: sorted_append)
  have ids': "map chunk_id (chunks st @ [?mk]) =
      map (make_chunk_id document) [0..<length (chunks st @ [?mk])]"
    using ids f(4) by simp
  show ?thesis
    unfolding chunker_inv_def close_window_def Let_def
    using tc suffix ci ids' bounds sorted' by simp
qed

lemma chunker_inv_step:
  assumes "chunker_inv document seen st"
  shows "chunker_inv document (seen @ [sentence]) (chunk_step document chunk_size overlap st sentence)"
proof (cases "current_length st + int (length sentence) > chunk_size \<and> current_chunk st \<noteq> []")
  case True
  then have "chunk_step document chunk_size overlap st sentence =
      (close_window document overlap st)
        \<lparr>current_chunk := current_chunk (close_window document overlap st) @ [sentence],
         current_length := current_length (close_window document overlap st) + int (length sentence),
         text_cursor := text_cursor (close_window document overlap st) + int (length sentence)\<rparr>"
    by (simp add: chunk_step_def Let_def)
  then show ?thesis
    using chunker_inv_append [OF chunker_inv_close [OF assms]] by simp
next
  case False
  then have "chunk_step document chunk_size overlap st sentence =
      st\<lparr>current_chunk := current_chunk st @ [sentence],
         current_length := current_length st + int (length sentence),
         text_cursor := text_cursor st + int (length sentence)\<rparr>"
    by (auto simp: chunk_step_def Let_def)
  then show ?thesis using chunker_inv_append [OF assms] by simp
qed

lemma chunker_inv_foldl:
  "chunker_inv document seen st \<Longrightarrow>
   chunker_inv document (seen @ sentences) (foldl (chunk_step document chunk_size overlap) st sentences)"
proof (induction sentences arbitrary: seen st)
  case Nil
  then show ?case by simp
next
  case (Cons sentence sentences)
  from Cons.IH [OF chunker_inv_step [OF Cons.prems, of sentence chunk_size overlap]]
  show ?case by simp
qed

lemma chunker_inv_init: "chunker_inv document [] chunker_init"
  by (simp add: chunker_inv_def chunker_init_def total_length_def)

lemma chunk_document_props:
  "map chunk_id (chunk_document document chunk_size overlap) =
     map (make_chunk_id document) [0..<length (chunk_document document chunk_size overlap)]
   \<and> sorted (map start_index (chunk_document document chunk_size overlap))
   \<and> (\<forall>c \<in> set (chunk_document document chunk_size overlap).
        start_index c \<le> end_index c \<and> end_index c \<le> int (length (doc_text document)))"
proof -
  let ?ss = "split_sentences (doc_text document)"
  let ?st = "foldl (chunk_step document chunk_size overlap) chunker_init ?ss"
  have inv: "chunker_inv document ?ss ?st"
    using chunker_inv_foldl [OF chunker_inv_init, of document ?ss chunk_size overlap] by simp
  note f = make_chunk_fields [OF inv]
  from inv have tc: "text_cursor ?st = total_length ?ss"
    and ids: "map chunk_id (chunks ?st) = map (make_chunk_id document) [0..<length (chunks ?st)]"
    and old: "\<And>c. c \<in> set (chunks ?st) \<Longrightarrow> start_index c \<le> end_index c \<and>
                end_index c \<le> text_cursor ?st \<and> start_index c \<le> text_cursor ?st - current_length ?st"
    and srt: "sorted (map start_index (chunks ?st))"
    by (auto simp: chunker_inv_def)
  have le: "text_cursor ?st \<le> int (length (doc_text document))"
    using tc split_sentences_length [of "doc_text document"] by simp
  have a: "map chunk_id (chunks ?st @ [make_chunk document ?st]) =
      map (make_chunk_id document) [0..<length (chunks ?st @ [make_chunk document ?st])]"
    using ids f(4) by simp
  have b: "sorted (map start_index (chunks ?st @ [make_chunk document ?st]))"
    using srt old f(1) by (fastforce simp: sorted_append)
  have c0: "\<forall>c \<in> set (chunks ?st).
      start_index c \<le> end_index c \<and> end_index c \<le> int (length (doc_text document))"
  proof
    fix c assume "c \<in> set (chunks ?st)"
    from old [OF this] le
    show "start_index c \<le> end_index c \<and> end_index c \<le> int (length (doc_text document))"
      by linarith
  qed
  have c: "\<forall>c \<in> set (chunks ?st @ [make_chunk document ?st]).
      start_index c \<le> end_index c \<and> end_index c \<le> int (length (doc_text document))"
  proof
    fix c assume "c \<in> set (chunks ?st @ [make_chunk document ?st])"
    then consider "c \<in> set (chunks ?st)" | "c = make_chunk document ?st" by auto
    then show "start_index c \<le> end_index c \<and> end_index c \<le> int (length (doc_text document))"
    proof cases
      case 1
      with c0 show ?thesis by blast
    next
      case 2
      show ?thesis unfolding 2 using f(2,3) le by linarith
    qed
  qed
  show ?thesis
    using a b c c0 ids srt by (simp add: chunk_document_def Let_def)
qed

subsection \<open>Chunk ids\<close>

lemma digits_value_snoc: "digits_value (ds @ [c]) = 10 * digits_value ds + (c - 48)"
  by (simp add: digits_value_def)

lemma digits_value_dec_digits: "digits_value (dec_digits n) = n"
proof (induction n rule: dec_digits.induct)
  case (1 n)
  show ?case
  proof (cases "n < 10")
    case True
    then show ?thesis by (subst dec_digits.simps) (simp add: digits_value_def)
  next
    case False
    with 1 have "digits_value (dec_digits (n div 10)) = n div 10" by simp
    with False show ?thesis
      by (subst dec_digits.simps) (simp add: digits_value_snoc)
  qed
qed

lemma digits_value_zeros: "digits_value (replicate k 48 @ ds) = digits_value ds"
proof -
  have "foldl (\<lambda>acc c. 10 * acc + (c - 48)) 0 (replicate k (48::nat)) = (0::nat)"
    by (induction k) (simp_all add: replicate_app_Cons_same)
  then show ?thesis by (simp add: digits_value_def)
qed

lemma digits_value_fmt05d: "digits_value (fmt05d n) = n"
  by (simp add: fmt05d_def digits_value_zeros digits_value_dec_digits)

lemma fmt05d_inj: "fmt05d i = fmt05d j \<Longrightarrow> i = j"
  by (metis digits_value_fmt05d)

lemma dec_digits_range: "c \<in> set (dec_digits n) \<Longrightarrow> 48 \<le> c \<and> c \<le> 57"
proof (induction n rule: dec_digits.induct)
  case (1 n)
  show ?case
  proof (cases "n < 10")
    case True
    with "1.prems" show ?thesis by (subst (asm) dec_digits.simps) auto
  next
    case False
    have "n mod 10 < 10" by simp
    with False "1.prems" "1.IH" show ?thesis
      by (subst (asm) dec_digits.simps) (auto simp: less_Suc_eq_le)
  qed
qed

lemma fmt05d_no_underscore: "95 \<notin> set (fmt05d n)"
  using dec_digits_range [of 95 n] by (auto simp: fmt05d_def)

lemma split_at_last_underscore:
  assumes "d @ [95] @ f = d' @ [95] @ g" "(95::nat) \<notin> set f" "95 \<notin> set g"
  shows "d = d' \<and> f = g"
proof -
  from assms(1) have "rev (d @ [95] @ f) = rev (d' @ [95] @ g)" by simp
  then have "rev f @ 95 # rev d = rev g @ 95 # rev d'" by simp
  moreover have "takeWhile (\<lambda>x. x \<noteq> 95) (rev f @ 95 # rev d) = rev f"
    using assms(2) by (auto simp: takeWhile_tail takeWhile_eq_all_conv)
  moreover have "takeWhile (\<lambda>x. x \<noteq> 95) (rev g @ 95 # rev d') = rev g"
    using assms(3) by (auto simp: takeWhile_tail takeWhile_eq_all_conv)
  ultimately have "rev f = rev g" by simp
  then have "f = g" by simp
  with assms(1) show ?thesis by simp
qed

lemma make_chunk_id_inj:
  "make_chunk_id document i = make_chunk_id document' j \<Longrightarrow> doc_id document = doc_id document' \<and> i = j"
proof -
  assume "make_chunk_id document i = make_chunk_id document' j"
  then have "doc_id document @ [95] @ fmt05d i = doc_id document' @ [95] @ fmt05d j"
    by (simp add: make_chunk_id_def)
  from split_at_last_underscore [OF this fmt05d_no_underscore fmt05d_no_underscore]
  show ?thesis using fmt05d_inj by blast
qed

lemma chunk_document_ids:
  "map chunk_id (chunk_document document chunk_size overlap) =
     map (make_chunk_id document) [0..<length (chunk_document document chunk_size overlap)]"
  using chunk_document_props by blast

lemma chunk_document_ids_distinct:
  "distinct (map chunk_id (chunk_document document chunk_size overlap))"
proof -
  have "inj_on (make_chunk_id document) (set [0..<length (chunk_document document chunk_size overlap)])"
    by (auto simp: inj_on_def dest: make_chunk_id_inj)
  then show ?thesis
    by (subst chunk_document_ids) (simp add: distinct_map)
qed

lemma chunk_document_id_form:
  assumes "c \<in> set (chunk_document document chunk_size overlap)"
  shows "\<exists>i. chunk_id c = make_chunk_id document i"
proof -
  from assms have "chunk_id c \<in> set (map chunk_id (chunk_document document chunk_size overlap))"
    by simp
  then show ?thesis by (subst (asm) chunk_document_ids) auto
qed

lemma chunk_corpus_id_form:
  assumes "c \<in> set (chunk_corpus documents chunk_size overlap)"
  shows "\<exists>document \<in> set documents. \<exists>i. chunk_id c = make_chunk_id document i"
  using assms chunk_document_id_form by (fastforce simp: chunk_corpus_def)

lemma chunk_corpus_ids_distinct:
  "distinct (map doc_id documents) \<Longrightarrow> distinct (map chunk_id (chunk_corpus documents chunk_size overlap))"
proof (induction documents)
  case Nil
  then show ?case by (simp add: chunk_corpus_def)
next
  case (Cons document documents)
  have split: "chunk_corpus (document # documents) chunk_size overlap =
      chunk_document document chunk_size overlap @ chunk_corpus documents chunk_size overlap"
    by (simp add: chunk_corpus_def)
  have disjoint: "set (map chunk_id (chunk_document document chunk_size overlap)) \<inter>
      set (map chunk_id (chunk_corpus documents chunk_size overlap)) = {}"
  proof (rule ccontr)
    assume "\<not> ?thesis"
    then obtain c c' where c: "c \<in> set (chunk_document document chunk_size overlap)"
      and c': "c' \<in> set (chunk_corpus documents chunk_size overlap)"
      and eq: "chunk_id c = chunk_id c'" by auto
    from chunk_document_id_form [OF c] obtain i where i: "chunk_id c = make_chunk_id document i" ..
    from chunk_corpus_id_form [OF c'] obtain document' j
      where d': "document' \<in> set documents" and j: "chunk_id c' = make_chunk_id document' j" by blast
    from eq i j make_chunk_id_inj have "doc_id document = doc_id document'" by metis
    with d' Cons.prems show False by auto
  qed
  from Cons have "distinct (map chunk_id (chunk_corpus documents chunk_size overlap))" by simp
  with disjoint chunk_document_ids_distinct [of document chunk_size overlap]
  show ?case by (simp add: split)
qed

text \<open>
  C9. Every chunk of a document has \<open>start_index \<le> end_index \<le> len(document.text)\<close>,
  the chunks of a document come in non-decreasing order of \<open>start_index\<close>, and the chunk
  ids of a corpus whose documents have distinct ids are pairwise distinct.
\<close>

theorem chunk_offsets_and_ids:
  "(\<forall>c \<in> set (chunk_document document chunk_size overlap).
      start_index c \<le> end_index c \<and> end_index c \<le> int (length (doc_text document)))
   \<and> sorted (map start_index (chunk_document document chunk_size overlap))
   \<and> (distinct (map doc_id documents) \<longrightarrow>
        distinct (map chunk_id (chunk_corpus documents chunk_size overlap)))"
  using chunk_document_props [of document chunk_size overlap]
    chunk_corpus_ids_distinct [of documents chunk_size overlap]
  by blast

text \<open>The two example documents: four chunks, four ids, offsets 0..5 and 5..11 of 11.\<close>

theorem chunk_offsets_and_ids_witness:
  "distinct (map doc_id example_documents)
   \<and> map chunk_id (chunk_corpus example_documents 10 2) =
       [[100, 95, 48, 48, 48, 48, 48], [100, 95, 48, 48, 48, 48, 49],
        [101, 95, 48, 48, 48, 48, 48], [101, 95, 48, 48, 48, 48, 49]]
   \<and> distinct (map chunk_id (chunk_corpus example_documents 10 2))
   \<and> map start_index (chunk_document (hd example_documents) 10 2) = [0, 5]
   \<and> map end_index (chunk_document (hd example_documents) 10 2) = [5, 11]
   \<and> sorted (map start_index (chunk_document (hd example_documents) 10 2))
   \<and> int (length (doc_text (hd example_documents))) = 11"
proof -
  have h: "distinct (map doc_id example_documents)"
    by (simp add: example_documents_def)
  have ev: "map chunk_id (chunk_corpus example_documents 10 2) =
       [[100, 95, 48, 48, 48, 48, 48], [100, 95, 48, 48, 48, 48, 49],
        [101, 95, 48, 48, 48, 48, 48], [101, 95, 48, 48, 48, 48, 49]]"
    "map start_index (chunk_document (hd example_documents) 10 2) = [0, 5]"
    "map end_index (chunk_document (hd example_documents) 10 2) = [5, 11]"
    by (simp_all add: example_documents_def chunk_corpus_def chunk_document_def
        split_two_sentences chunk_step_def chunker_init_def close_window_def make_chunk_def
        total_length_def strip_def is_space_def fmt05d_0 fmt05d_1 Let_def)
  have len: "int (length (doc_text (hd example_documents))) = 11"
    by (simp add: example_documents_def two_sentences_def)
  show ?thesis
    using h ev len chunk_offsets_and_ids [of "hd example_documents" 10 2 example_documents]
    by simp
qed

end
